theory Spec2Isabelle
  imports Complex_Main "HOL-Library.Word" "HOL-Library.AList" "HOL-Library.Multiset"
begin

unbundle bit_operations_syntax

section \<open>Machine integers and their decimal text\<close>

text \<open>
  Go's \<open>int\<close> is a 64-bit two's-complement integer. Values are kept as \<open>int\<close>
  and every arithmetic operation of the source is followed by \<open>wrap64\<close>.
  Division truncates towards zero, unlike \<open>div\<close> on \<open>int\<close>.
\<close>

definition wrap64 :: "int \<Rightarrow> int" where
  "wrap64 n = (n + 2 ^ 63) mod 2 ^ 64 - 2 ^ 63"

definition in_int64 :: "int \<Rightarrow> bool" where
  "in_int64 n \<longleftrightarrow> - (2 ^ 63) \<le> n \<and> n < 2 ^ 63"

definition go_add :: "int \<Rightarrow> int \<Rightarrow> int" where
  "go_add a b = wrap64 (a + b)"

definition go_sub :: "int \<Rightarrow> int \<Rightarrow> int" where
  "go_sub a b = wrap64 (a - b)"

definition go_mul :: "int \<Rightarrow> int \<Rightarrow> int" where
  "go_mul a b = wrap64 (a * b)"

definition go_quot :: "int \<Rightarrow> int \<Rightarrow> int" where
  "go_quot a b = wrap64 (sgn a * sgn b * (\<bar>a\<bar> div \<bar>b\<bar>))"

definition go_rem :: "int \<Rightarrow> int \<Rightarrow> int" where
  "go_rem a b = sgn a * (\<bar>a\<bar> mod \<bar>b\<bar>)"

text \<open>The verb \<open>%d\<close> of \<open>fmt.Sprintf\<close>: an optional minus sign and the decimal digits.\<close>

definition digit_char :: "nat \<Rightarrow> char" where
  "digit_char d = char_of (48 + d)"

fun digits :: "nat \<Rightarrow> string" where
  "digits n = (if n < 10 then [digit_char n] else digits (n div 10) @ [digit_char (n mod 10)])"

declare digits.simps [simp del]

definition fmt_d :: "int \<Rightarrow> string" where
  "fmt_d n = (if n < 0 then CHR ''-'' # digits (nat (- n)) else digits (nat n))"

section \<open>Scanning a tile coordinate\<close>

text \<open>
  Modelled from the Go library documentation: \<open>fmt.Sscanf(s, "%d,%d", &x, &y)\<close> is not
  code of the repository. Each \<open>%d\<close> skips blanks, takes an optional sign and at least
  one decimal digit, and stores the value unless it is outside 64 bits; the comma must
  follow the first number at once; text after the second number is ignored. The scan
  stops at the first failure, and what was stored before stays stored. The result lists
  what was written through each pointer (\<open>None\<close>: the variable was not touched).
\<close>

definition is_blank :: "char \<Rightarrow> bool" where
  "is_blank c \<longleftrightarrow> c = CHR '' '' \<or> c = CHR 0x09 \<or> c = CHR 0x0D \<or> c = CHR 0x0B \<or> c = CHR 0x0C"

definition is_digit :: "char \<Rightarrow> bool" where
  "is_digit c \<longleftrightarrow> 48 \<le> (of_char c :: nat) \<and> (of_char c :: nat) \<le> 57"

definition digits_value :: "string \<Rightarrow> nat" where
  "digits_value ds = foldl (\<lambda>a c. 10 * a + (of_char c - 48)) 0 ds"

definition scan_int :: "string \<Rightarrow> (int \<times> string) option" where
  "scan_int s =
     (let s1 = dropWhile is_blank s;
          (neg, s2) = (case s1 of
                         c # r \<Rightarrow> if c = CHR ''-'' then (True, r)
                                  else if c = CHR ''+'' then (False, r) else (False, s1)
                       | [] \<Rightarrow> (False, s1));
          ds = takeWhile is_digit s2;
          v = (if neg then - int (digits_value ds) else int (digits_value ds))
      in if ds = [] \<or> \<not> in_int64 v then None else Some (v, dropWhile is_digit s2))"

definition Sscanf_d_d :: "string \<Rightarrow> int option \<times> int option" where
  "Sscanf_d_d s =
     (case scan_int s of
        None \<Rightarrow> (None, None)
      | Some (x, r) \<Rightarrow>
          (case r of
             c # r' \<Rightarrow>
               if c = CHR '','' then
                 (case scan_int r' of None \<Rightarrow> (Some x, None) | Some (y, _) \<Rightarrow> (Some x, Some y))
               else (Some x, None)
           | [] \<Rightarrow> (Some x, None)))"

section \<open>Data model\<close>

type_synonym u8 = "8 word"

datatype RGBA = RGBA (cR: u8) (cG: u8) (cB: u8) (cA: u8)

text \<open>
  The run-time panics of the program: an index outside the palette table, and the two
  ways \<open>image.NewRGBA\<close> can fail.
\<close>

datatype panic = IndexOutOfRange | HugeRectangle | MakeSliceLen

text \<open>
  \<open>image.RGBA\<close>: the bounds \<open>(MinX, MinY, MaxX, MaxY)\<close> and the pixels, row by row.
\<close>

record RGBA_image =
  img_MinX :: int
  img_MinY :: int
  img_MaxX :: int
  img_MaxY :: int
  img_Pix :: "RGBA list"

text \<open>
  Modelled from the Go library: \<open>image.NewRGBA(image.Rect(0, 0, w, h))\<close> is not code
  of the repository. \<open>image.Rect\<close> swaps the corners of a rectangle given with a
  negative extent. \<open>NewRGBA\<close> computes the length of the pixel buffer with
  \<open>mul3NonNeg(4, r.Dx(), r.Dy())\<close>, which returns \<open>-1\<close> for a negative argument
  or when a product leaves 64 bits, and panics on a negative length ("Rectangle has
  huge or negative dimensions"). It then calls \<open>make([]uint8, n)\<close>, which panics
  ("makeslice: len out of range") for a length above the limit \<open>maxAlloc\<close> of the
  runtime, \<open>2^48\<close> bytes on the 64-bit platforms. A machine that runs out of memory
  below that limit is not modelled. The buffer of \<open>n\<close> bytes is kept as its
  \<open>n / 4\<close> pixels, all zero.
\<close>

definition mul3NonNeg :: "int \<Rightarrow> int \<Rightarrow> int \<Rightarrow> int" where
  "mul3NonNeg x y z =
     (if x < 0 \<or> y < 0 \<or> z < 0 then - 1
      else if 2 ^ 64 \<le> x * y then - 1
      else if 2 ^ 64 \<le> x * y * z then - 1
      else if 2 ^ 63 \<le> x * y * z then - 1
      else x * y * z)"

definition maxAlloc :: int where
  "maxAlloc = 2 ^ 48"

definition NewRGBA :: "int \<Rightarrow> int \<Rightarrow> panic + RGBA_image" where
  "NewRGBA w h =
     (let x0 = min 0 w; x1 = max 0 w; y0 = min 0 h; y1 = max 0 h;
          n = mul3NonNeg 4 (go_sub x1 x0) (go_sub y1 y0)
      in if n < 0 then Inl HugeRectangle
         else if maxAlloc < n then Inl MakeSliceLen
         else Inr \<lparr> img_MinX = x0, img_MinY = y0, img_MaxX = x1, img_MaxY = y1,
                    img_Pix = replicate (nat (n div 4)) (RGBA 0 0 0 0) \<rparr>)"

definition img_Set :: "RGBA_image \<Rightarrow> int \<Rightarrow> int \<Rightarrow> RGBA \<Rightarrow> RGBA_image" where
  "img_Set img x y c =
     (if img_MinX img \<le> x \<and> x < img_MaxX img \<and> img_MinY img \<le> y \<and> y < img_MaxY img
      then img\<lparr> img_Pix := (img_Pix img)
             [nat ((y - img_MinY img) * (img_MaxX img - img_MinX img) + (x - img_MinX img)) := c] \<rparr>
      else img)"

text \<open>\<open>color.Black\<close> stored into an RGBA image.\<close>

definition Black :: RGBA where
  "Black = RGBA 0 0 0 255"

record 'f Complex =
  c_Real :: 'f
  c_Imag :: 'f

record 'f JuliaParams =
  p_C :: "'f Complex"
  p_Center :: "'f Complex"
  p_Zoom :: 'f
  p_Coloring :: int
  p_MaxIterations :: int
  p_Width :: int
  p_Height :: int
  p_LOD :: int

record Tile =
  t_X :: int
  t_Y :: int
  t_Width :: int
  t_Height :: int
  t_LOD :: int
  t_Image :: "u8 list"
  t_LastAccessed :: nat

record TileRequest =
  r_X :: int
  r_Y :: int
  r_LOD :: int

record 'f Offset =
  o_X :: 'f
  o_Y :: 'f

text \<open>
  The Go runtime and libraries the program calls, taken as parameters over an
  unspecified type \<open>'f\<close> of \<open>float64\<close> values: arithmetic, conversions, the
  functions of \<open>math\<close> and \<open>math/cmplx\<close>, the verb \<open>%f\<close>, go-colorful's
  \<open>Hsv(h, s, v).RGB255()\<close>, \<open>png.Encode\<close> into a fresh buffer (the bytes written
  and whether an error was returned), \<open>base64.StdEncoding.EncodeToString\<close>, and
  \<open>sort.Slice\<close> on a slice of tile requests, given the order on elements that the
  \<open>less\<close> closure computes. \<open>map_range\<close> is the order in which a \<open>range\<close> loop
  visits the entries of the cache: some permutation, not specified by the language.
  \<open>f_lit q\<close> is the constant \<open>q\<close> and
  \<open>f_pi q\<close> the constant \<open>q * math.Pi\<close>, as the compiler folds them.
\<close>

record 'f golib =
  f_add :: "'f \<Rightarrow> 'f \<Rightarrow> 'f"
  f_sub :: "'f \<Rightarrow> 'f \<Rightarrow> 'f"
  f_mul :: "'f \<Rightarrow> 'f \<Rightarrow> 'f"
  f_div :: "'f \<Rightarrow> 'f \<Rightarrow> 'f"
  f_neg :: "'f \<Rightarrow> 'f"
  f_gt :: "'f \<Rightarrow> 'f \<Rightarrow> bool"
  f_int :: "int \<Rightarrow> 'f"
  f_lit :: "rat \<Rightarrow> 'f"
  f_pi :: "rat \<Rightarrow> 'f"
  f_log :: "'f \<Rightarrow> 'f"
  f_sin :: "'f \<Rightarrow> 'f"
  f_cos :: "'f \<Rightarrow> 'f"
  f_exp :: "'f \<Rightarrow> 'f"
  f_pow :: "'f \<Rightarrow> 'f \<Rightarrow> 'f"
  f_atan2 :: "'f \<Rightarrow> 'f \<Rightarrow> 'f"
  c_abs :: "'f \<times> 'f \<Rightarrow> 'f"
  c_phase :: "'f \<times> 'f \<Rightarrow> 'f"
  f_uint8 :: "'f \<Rightarrow> u8"
  f_to_int :: "'f \<Rightarrow> int"
  fmt_f :: "'f \<Rightarrow> string"
  hsv_rgb255 :: "'f \<Rightarrow> 'f \<Rightarrow> 'f \<Rightarrow> u8 \<times> u8 \<times> u8"
  png_Encode :: "RGBA_image \<Rightarrow> u8 list \<times> bool"
  base64_EncodeToString :: "u8 list \<Rightarrow> string"
  sort_Slice :: "(TileRequest \<Rightarrow> TileRequest \<Rightarrow> bool) \<Rightarrow> TileRequest list \<Rightarrow> TileRequest list"
  map_range :: "(string \<times> Tile) list \<Rightarrow> (string \<times> Tile) list"

definition TileSize :: int where
  "TileSize = 128"

definition MaxCacheSize :: nat where
  "MaxCacheSize = 1000"

section \<open>Coloring algorithms\<close>

text \<open>A \<open>complex128\<close> is the pair of its real and imaginary parts.\<close>

definition smoothColor :: "'f golib \<Rightarrow> int \<Rightarrow> 'f \<times> 'f \<Rightarrow> 'f" where
  "smoothColor L i z =
     f_sub L (f_int L i) (f_div L (f_log L (f_log L (c_abs L z))) (f_log L (f_lit L 2)))"

definition hsv :: "'f golib \<Rightarrow> 'f \<Rightarrow> 'f \<Rightarrow> 'f \<Rightarrow> u8 \<Rightarrow> RGBA" where
  "hsv L h s v a = (case hsv_rgb255 L h s v of (r, g, b) \<Rightarrow> RGBA r g b a)"

definition SmoothColorHSV :: "'f golib \<Rightarrow> int \<Rightarrow> int \<Rightarrow> 'f \<times> 'f \<Rightarrow> RGBA" where
  "SmoothColorHSV L i maxIterations z =
     (if i = maxIterations then RGBA 0 0 0 255
      else let hue = f_sin L (f_mul L (smoothColor L i z) (f_lit L (1/10)))
           in hsv L (f_mul L hue (f_lit L 360)) (f_lit L (8/10)) (f_lit L 1) 255)"

definition StripePattern :: "'f golib \<Rightarrow> int \<Rightarrow> int \<Rightarrow> 'f \<times> 'f \<Rightarrow> RGBA" where
  "StripePattern L i maxIterations z =
     (if i = maxIterations then RGBA 0 0 0 255
      else let stripeWidth = 10;
               stripeIndex = go_quot i stripeWidth;
               inStripe = go_rem i stripeWidth;
               baseHue = f_div L (f_int L (go_rem stripeIndex 6)) (f_lit L 6);
               hue = f_add L baseHue
                       (f_div L (f_int L inStripe) (f_mul L (f_int L stripeWidth) (f_lit L 6)));
               saturation = f_add L (f_lit L (8/10))
                       (f_mul L (f_lit L (2/10)) (f_sin L (f_mul L (f_int L i) (f_lit L (1/10)))));
               val = f_sub L (f_lit L 1)
                       (f_div L (f_mul L (f_lit L (5/10)) (f_int L inStripe)) (f_int L stripeWidth))
           in hsv L (f_mul L hue (f_lit L 360)) saturation val 255)"

definition sin_byte :: "'f golib \<Rightarrow> 'f \<Rightarrow> u8" where
  "sin_byte L a = f_uint8 L (f_add L (f_mul L (f_sin L a) (f_lit L 127)) (f_lit L 128))"

definition ElectricPlasma :: "'f golib \<Rightarrow> int \<Rightarrow> int \<Rightarrow> 'f \<times> 'f \<Rightarrow> RGBA" where
  "ElectricPlasma L i maxIterations z =
     (if i = maxIterations then RGBA 0 0 0 255
      else let t = f_div L (smoothColor L i z) (f_int L maxIterations);
               r = sin_byte L (f_mul L t (f_pi L 1));
               g = sin_byte L (f_mul L (f_mul L t (f_pi L 1)) (f_lit L 2));
               b = sin_byte L (f_mul L (f_mul L t (f_pi L 1)) (f_lit L 4))
           in RGBA r g b 255)"

definition PsychedelicSwirl :: "'f golib \<Rightarrow> int \<Rightarrow> int \<Rightarrow> 'f \<times> 'f \<Rightarrow> RGBA" where
  "PsychedelicSwirl L i maxIterations z =
     (if i = maxIterations then RGBA 0 0 0 255
      else let angle = c_phase L z;
               radius = c_abs L z;
               hue = f_div L (f_add L (f_atan2 L angle (f_log L radius)) (f_pi L 1)) (f_pi L 2);
               saturation = f_add L (f_lit L (8/10))
                       (f_mul L (f_lit L (2/10)) (f_sin L (f_mul L (f_int L i) (f_lit L (1/10)))));
               val = f_sub L (f_lit L 1)
                       (f_pow L (f_div L (f_int L i) (f_int L maxIterations)) (f_lit L (3/10)))
           in hsv L (f_mul L hue (f_lit L 360)) saturation val 255)"

definition sheen_byte :: "'f golib \<Rightarrow> 'f \<Rightarrow> 'f \<Rightarrow> u8" where
  "sheen_byte L t ph =
     f_uint8 L (f_add L (f_lit L 128)
       (f_mul L (f_lit L 127) (f_sin L (f_add L (f_mul L (f_mul L t (f_lit L 2)) (f_pi L 1)) ph))))"

definition MetallicSheen :: "'f golib \<Rightarrow> int \<Rightarrow> int \<Rightarrow> 'f \<times> 'f \<Rightarrow> RGBA" where
  "MetallicSheen L i maxIterations z =
     (if i = maxIterations then RGBA 0 0 0 255
      else let t = f_div L (smoothColor L i z) (f_int L maxIterations);
               r = sheen_byte L t (f_lit L 0);
               g = sheen_byte L t (f_pi L (2/3));
               b = sheen_byte L t (f_pi L (4/3))
           in RGBA r g b 255)"

definition RainbowSpiral :: "'f golib \<Rightarrow> int \<Rightarrow> int \<Rightarrow> 'f \<times> 'f \<Rightarrow> RGBA" where
  "RainbowSpiral L i maxIterations z =
     (if i = maxIterations then RGBA 0 0 0 255
      else let t = f_div L (smoothColor L i z) (f_int L maxIterations);
               intensity = f_uint8 L (f_mul L (f_lit L 255)
                                        (f_pow L (f_sub L (f_lit L 1) t) (f_lit L 3)))
           in hsv L (f_mul L t (f_lit L 360)) (f_lit L 1) (f_lit L 1) intensity)"

definition AutumnLeaves :: "'f golib \<Rightarrow> int \<Rightarrow> int \<Rightarrow> 'f \<times> 'f \<Rightarrow> RGBA" where
  "AutumnLeaves L i maxIterations z =
     (if i = maxIterations then RGBA 0 0 0 255
      else let t = f_div L (smoothColor L i z) (f_int L maxIterations);
               hue = f_add L (f_lit L 30) (f_mul L (f_lit L 60) (f_sin L (f_mul L t (f_pi L 1))));
               saturation = f_add L (f_lit L (8/10))
                 (f_mul L (f_lit L (2/10)) (f_cos L (f_mul L (f_mul L t (f_lit L 2)) (f_pi L 1))));
               val = f_add L (f_lit L (7/10))
                 (f_mul L (f_lit L (3/10)) (f_sin L (f_mul L (f_mul L t (f_lit L 4)) (f_pi L 1))))
           in hsv L hue saturation val 255)"

definition OceanDepths :: "'f golib \<Rightarrow> int \<Rightarrow> int \<Rightarrow> 'f \<times> 'f \<Rightarrow> RGBA" where
  "OceanDepths L i maxIterations z =
     (if i = maxIterations then RGBA 0 0 0 255
      else let t = f_div L (smoothColor L i z) (f_int L maxIterations);
               hue = f_add L (f_lit L 180) (f_mul L (f_lit L 60) (f_sin L (f_mul L t (f_pi L 1))));
               saturation = f_add L (f_lit L (7/10))
                 (f_mul L (f_lit L (3/10)) (f_cos L (f_mul L (f_mul L t (f_lit L 2)) (f_pi L 1))));
               val = f_add L (f_lit L (5/10))
                 (f_mul L (f_lit L (5/10)) (f_pow L t (f_lit L (5/10))))
           in hsv L hue saturation val 255)"

definition MoltenLava :: "'f golib \<Rightarrow> int \<Rightarrow> int \<Rightarrow> 'f \<times> 'f \<Rightarrow> RGBA" where
  "MoltenLava L i maxIterations z =
     (if i = maxIterations then RGBA 0 0 0 255
      else let t = f_div L (smoothColor L i z) (f_int L maxIterations);
               r = f_uint8 L (f_mul L (f_lit L 255) (f_pow L t (f_lit L (5/10))));
               g = f_uint8 L (f_mul L (f_lit L 128) (f_pow L t (f_lit L 2)));
               b = f_uint8 L (f_mul L (f_lit L 64) (f_pow L t (f_lit L 4)))
           in RGBA r g b 255)"

definition AlternateAlgorithms ::
  "'f golib \<Rightarrow> int \<Rightarrow> int \<Rightarrow> 'f \<times> 'f \<Rightarrow> int \<Rightarrow> int \<Rightarrow> RGBA" where
  "AlternateAlgorithms L i maxIterations z x y =
     (if go_rem (go_add x y) 2 = 0 then ElectricPlasma L i maxIterations z
      else AutumnLeaves L i maxIterations z)"

definition f_byte :: "'f golib \<Rightarrow> u8 \<Rightarrow> 'f" where
  "f_byte L b = f_int L (uint b)"

definition mix_channel :: "'f golib \<Rightarrow> u8 \<Rightarrow> u8 \<Rightarrow> u8 \<Rightarrow> 'f \<Rightarrow> 'f \<Rightarrow> 'f \<Rightarrow> u8" where
  "mix_channel L a b c weight1 weight2 weight3 =
     f_uint8 L (f_div L
       (f_add L (f_add L (f_mul L (f_byte L a) weight1) (f_mul L (f_byte L b) weight2))
                (f_mul L (f_byte L c) weight3))
       (f_add L (f_add L weight1 weight2) weight3))"

definition MixMultipleAlgorithms :: "'f golib \<Rightarrow> int \<Rightarrow> int \<Rightarrow> 'f \<times> 'f \<Rightarrow> RGBA" where
  "MixMultipleAlgorithms L i maxIterations z =
     (let color1 = StripePattern L i maxIterations z;
          color2 = MetallicSheen L i maxIterations z;
          color3 = OceanDepths L i maxIterations z;
          t = f_div L (f_int L i) (f_int L maxIterations);
          weight1 = f_sin L (f_mul L t (f_pi L 1));
          weight2 = f_sin L (f_mul L (f_mul L t (f_lit L 2)) (f_pi L 1));
          weight3 = f_sin L (f_mul L (f_mul L t (f_lit L 4)) (f_pi L 1))
      in RGBA (mix_channel L (cR color1) (cR color2) (cR color3) weight1 weight2 weight3)
              (mix_channel L (cG color1) (cG color2) (cG color3) weight1 weight2 weight3)
              (mix_channel L (cB color1) (cB color2) (cB color3) weight1 weight2 weight3)
              255)"

definition grey_entry :: "'f golib \<Rightarrow> int \<Rightarrow> int" where
  "grey_entry L i =
     (let e = f_to_int L (f_exp L (f_div L (f_neg L (f_int L i)) (f_lit L 50)));
          p = uint (word_of_int (go_sub (go_add i 512) (go_quot (go_mul 512 e) 3)) :: u8)
      in push_bit 16 p OR push_bit 8 p OR p)"

definition createGreyPalette :: "'f golib \<Rightarrow> int list" where
  "createGreyPalette L = (map (\<lambda>i. grey_entry L (int i)) [0..<256]) [255 := 0]"

definition GreyPalette :: "'f golib \<Rightarrow> int \<Rightarrow> int \<Rightarrow> 'f \<times> 'f \<Rightarrow> panic + RGBA" where
  "GreyPalette L i maxIterations z =
     (if i = maxIterations then Inr (RGBA 0 0 0 255)
      else let greyPalette = createGreyPalette L; k = go_rem i 256
           in if 0 \<le> k \<and> k < int (length greyPalette)
              then let colorInt = greyPalette ! nat k
                   in Inr (RGBA (word_of_int (colorInt AND 255))
                                (word_of_int (drop_bit 8 colorInt AND 255))
                                (word_of_int (drop_bit 16 colorInt AND 255))
                                255)
              else Inl IndexOutOfRange)"

definition ReturnRGBA ::
  "'f golib \<Rightarrow> int \<Rightarrow> int \<Rightarrow> int \<Rightarrow> 'f \<times> 'f \<Rightarrow> int \<Rightarrow> int \<Rightarrow> panic + RGBA" where
  "ReturnRGBA L coloring i maxIterations z x y =
     (if coloring = 1 then Inr (SmoothColorHSV L i maxIterations z)
      else if coloring = 2 then Inr (StripePattern L i maxIterations z)
      else if coloring = 3 then Inr (ElectricPlasma L i maxIterations z)
      else if coloring = 4 then Inr (PsychedelicSwirl L i maxIterations z)
      else if coloring = 5 then Inr (MetallicSheen L i maxIterations z)
      else if coloring = 6 then Inr (RainbowSpiral L i maxIterations z)
      else if coloring = 7 then Inr (AutumnLeaves L i maxIterations z)
      else if coloring = 8 then Inr (OceanDepths L i maxIterations z)
      else if coloring = 9 then Inr (MoltenLava L i maxIterations z)
      else if coloring = 10 then GreyPalette L i maxIterations z
      else if coloring = 11 then Inr (AlternateAlgorithms L i maxIterations z x y)
      else if coloring = 12 then Inr (MixMultipleAlgorithms L i maxIterations z)
      else Inr (SmoothColorHSV L i maxIterations z))"

section \<open>Rendering one tile\<close>

text \<open>
  Complex arithmetic on \<open>complex128\<close>, as the compiler expands it:
  \<open>(a+bi)(c+di) = (ac - bd) + (ad + bc)i\<close>.
\<close>

definition c_mul :: "'f golib \<Rightarrow> 'f \<times> 'f \<Rightarrow> 'f \<times> 'f \<Rightarrow> 'f \<times> 'f" where
  "c_mul L u v =
     (f_sub L (f_mul L (fst u) (fst v)) (f_mul L (snd u) (snd v)),
      f_add L (f_mul L (fst u) (snd v)) (f_mul L (snd u) (fst v)))"

definition c_add :: "'f golib \<Rightarrow> 'f \<times> 'f \<Rightarrow> 'f \<times> 'f \<Rightarrow> 'f \<times> 'f" where
  "c_add L u v = (f_add L (fst u) (fst v), f_add L (snd u) (snd v))"

text \<open>
  The escape-time loop of \<open>generateJuliaTile\<close>:
  \<^verbatim>\<open>for i = 0; i < params.MaxIterations; i++ { if cmplx.Abs(z) > 2 { break }; z = z*z + c }\<close>
  It returns the final \<open>i\<close> and \<open>z\<close>. Since \<open>i\<close> stays below a 64-bit bound,
  \<open>i++\<close> does not wrap.
\<close>

function escape ::
  "'f golib \<Rightarrow> 'f \<times> 'f \<Rightarrow> int \<Rightarrow> int \<Rightarrow> 'f \<times> 'f \<Rightarrow> int \<times> ('f \<times> 'f)" where
  "escape L c maxIterations i z =
     (if i < maxIterations then
        (if f_gt L (c_abs L z) (f_lit L 2) then (i, z)
         else escape L c maxIterations (i + 1) (c_add L (c_mul L z z) c))
      else (i, z))"
  by pat_completeness auto
termination
  by (relation "measure (\<lambda>(L, c, m, i, z). nat (m - i))") auto

declare escape.simps [simp del]

definition plane_coord :: "'f golib \<Rightarrow> int \<Rightarrow> 'f \<Rightarrow> 'f \<Rightarrow> int \<Rightarrow> 'f \<Rightarrow> 'f" where
  "plane_coord L absolute off zoom extent center =
     f_add L (f_sub L (f_div L (f_sub L (f_int L absolute) off) zoom)
                      (f_div L (f_int L extent) (f_mul L (f_lit L 2) zoom)))
             center"

definition juliaPixel ::
  "'f golib \<Rightarrow> 'f JuliaParams \<Rightarrow> int \<Rightarrow> int \<Rightarrow> 'f Offset \<Rightarrow> 'f \<Rightarrow> int \<Rightarrow> int \<Rightarrow> panic + RGBA" where
  "juliaPixel L params tileX tileY offset y px py =
     (let c = (c_Real (p_C params), c_Imag (p_C params));
          x = plane_coord L (go_add tileX px) (o_X offset) (p_Zoom params) (p_Width params)
                (c_Real (p_Center params));
          (i, z) = escape L c (p_MaxIterations params) 0 (x, y)
      in if i < p_MaxIterations params
         then ReturnRGBA L (p_Coloring params) i (p_MaxIterations params) z
                (go_add tileX px) (go_add tileY py)
         else Inr Black)"

function rowLoop ::
  "'f golib \<Rightarrow> 'f JuliaParams \<Rightarrow> int \<Rightarrow> int \<Rightarrow> int \<Rightarrow> 'f Offset \<Rightarrow> 'f \<Rightarrow> int \<Rightarrow> int
     \<Rightarrow> RGBA_image \<Rightarrow> panic + RGBA_image" where
  "rowLoop L params tileX tileY tileWidth offset y py px img =
     (if px < tileWidth then
        (case juliaPixel L params tileX tileY offset y px py of
           Inl e \<Rightarrow> Inl e
         | Inr rgba \<Rightarrow>
             rowLoop L params tileX tileY tileWidth offset y py (px + 1) (img_Set img px py rgba))
      else Inr img)"
  by pat_completeness auto
termination
  by (relation "measure (\<lambda>(L, params, tileX, tileY, tileWidth, offset, y, py, px, img).
        nat (tileWidth - px))") auto

declare rowLoop.simps [simp del]

function tileLoop ::
  "'f golib \<Rightarrow> 'f JuliaParams \<Rightarrow> int \<Rightarrow> int \<Rightarrow> int \<Rightarrow> int \<Rightarrow> 'f Offset \<Rightarrow> int
     \<Rightarrow> RGBA_image \<Rightarrow> panic + RGBA_image" where
  "tileLoop L params tileX tileY tileWidth tileHeight offset py img =
     (if py < tileHeight then
        (let y = plane_coord L (go_add tileY py) (o_Y offset) (p_Zoom params) (p_Height params)
                   (c_Imag (p_Center params))
         in case rowLoop L params tileX tileY tileWidth offset y py 0 img of
              Inl e \<Rightarrow> Inl e
            | Inr img' \<Rightarrow>
                tileLoop L params tileX tileY tileWidth tileHeight offset (py + 1) img')
      else Inr img)"
  by pat_completeness auto
termination
  by (relation "measure (\<lambda>(L, params, tileX, tileY, tileWidth, tileHeight, offset, py, img).
        nat (tileHeight - py))") auto

declare tileLoop.simps [simp del]

text \<open>
  \<open>generateJuliaTile\<close>. The value of \<open>time.Now()\<close> is the argument \<open>now\<close>. The
  error \<open>png.Encode\<close> returns is not looked at: the tile carries whatever was written.
\<close>

definition generateJuliaTile ::
  "'f golib \<Rightarrow> nat \<Rightarrow> 'f JuliaParams \<Rightarrow> int \<Rightarrow> int \<Rightarrow> int \<Rightarrow> int \<Rightarrow> int \<Rightarrow> 'f Offset
     \<Rightarrow> panic + Tile" where
  "generateJuliaTile L now params tileX tileY tileWidth tileHeight lod offset =
     (case NewRGBA tileWidth tileHeight of
        Inl e \<Rightarrow> Inl e
      | Inr img0 \<Rightarrow>
          (case tileLoop L params tileX tileY tileWidth tileHeight offset 0 img0 of
             Inl e \<Rightarrow> Inl e
           | Inr img \<Rightarrow>
               Inr \<lparr> t_X = tileX, t_Y = tileY, t_Width = tileWidth, t_Height = tileHeight,
                     t_LOD = lod, t_Image = fst (png_Encode L img), t_LastAccessed = now \<rparr>))"

definition getTileKey ::
  "'f golib \<Rightarrow> 'f JuliaParams \<Rightarrow> int \<Rightarrow> int \<Rightarrow> int \<Rightarrow> 'f Offset \<Rightarrow> string" where
  "getTileKey L params x y lod offset =
     fmt_f L (c_Real (p_C params)) @ '','' @ fmt_f L (c_Imag (p_C params)) @ '','' @
     fmt_f L (c_Real (p_Center params)) @ '','' @ fmt_f L (c_Imag (p_Center params)) @ '','' @
     fmt_f L (p_Zoom params) @ '','' @ fmt_d (p_MaxIterations params) @ '','' @
     fmt_d (p_Width params) @ '','' @ fmt_d (p_Height params) @ '','' @
     fmt_d (p_Coloring params) @ '','' @ fmt_d x @ '','' @ fmt_d y @ '','' @ fmt_d lod @ '','' @
     fmt_f L (o_X offset) @ '','' @ fmt_f L (o_Y offset)"

section \<open>Integer-valued float64 arithmetic\<close>

text \<open>
  The tile extents and the sort key are computed in \<open>float64\<close> from integers only.
  An integer-valued \<open>float64\<close> is represented by the integer it denotes;
  \<open>float64_of_int\<close> is the conversion \<open>float64(n)\<close>: exact up to 53 bits, rounded
  to the nearest value with a 53-bit significand (ties to even) beyond.
\<close>

fun bit_length :: "nat \<Rightarrow> nat" where
  "bit_length n = (if n = 0 then 0 else Suc (bit_length (n div 2)))"

declare bit_length.simps [simp del]

definition float64_round :: "int \<Rightarrow> int" where
  "float64_round n =
     (let a = nat \<bar>n\<bar>; k = bit_length a
      in if k \<le> 53 then n
         else let s = k - 53; q = a div 2 ^ s; r = a mod 2 ^ s; h = 2 ^ (s - 1);
                  q' = (if h < r \<or> (r = h \<and> odd q) then q + 1 else q)
              in sgn n * int (q' * 2 ^ s))"

definition float64_of_int :: "int \<Rightarrow> int" where
  "float64_of_int n = float64_round n"

text \<open>\<open>int(math.Min(float64(TileSize), float64(extent - origin)))\<close>\<close>

definition clipExtent :: "int \<Rightarrow> int \<Rightarrow> int" where
  "clipExtent extent origin = min (float64_of_int TileSize) (float64_of_int (go_sub extent origin))"

text \<open>
  \<open>math.Pow(float64(d), 2)\<close> is the square of the converted value, rounded once;
  the sum of two squares is rounded again.
\<close>

definition pow2 :: "int \<Rightarrow> int" where
  "pow2 x = float64_round (x * x)"

definition dist :: "'f JuliaParams \<Rightarrow> TileRequest \<Rightarrow> int" where
  "dist params r =
     (let centerX = go_quot (p_Width params) 2; centerY = go_quot (p_Height params) 2
      in float64_round (pow2 (float64_of_int (go_sub (r_X r) centerX)) +
                        pow2 (float64_of_int (go_sub (r_Y r) centerY))))"

text \<open>The \<open>less\<close> closure handed to \<open>sort.Slice\<close>, on the elements it compares.\<close>

definition less_req :: "'f JuliaParams \<Rightarrow> TileRequest \<Rightarrow> TileRequest \<Rightarrow> bool" where
  "less_req params a b =
     (if r_LOD a \<noteq> r_LOD b then r_LOD a < r_LOD b else dist params a < dist params b)"

section \<open>Tile cache\<close>

text \<open>
  \<open>map[string]*Tile\<close> as an association list with distinct keys; a new key goes to
  the end. Timestamps are natural numbers, the zero \<open>time.Time\<close> being \<open>0\<close>.
\<close>

type_synonym TileCache = "(string \<times> Tile) list"

definition TileCache_Get :: "TileCache \<Rightarrow> string \<Rightarrow> Tile option" where
  "TileCache_Get tc key = map_of tc key"

definition TileCache_Set :: "TileCache \<Rightarrow> string \<Rightarrow> Tile \<Rightarrow> TileCache" where
  "TileCache_Set tc key tile = AList.update key tile tc"

definition TileCache_Delete :: "TileCache \<Rightarrow> string \<Rightarrow> TileCache" where
  "TileCache_Delete tc key = AList.delete key tc"

definition TileCache_Len :: "TileCache \<Rightarrow> nat" where
  "TileCache_Len tc = length tc"

definition getCachedTile ::
  "'f golib \<Rightarrow> TileCache \<Rightarrow> nat \<Rightarrow> 'f JuliaParams \<Rightarrow> int \<Rightarrow> int \<Rightarrow> int \<Rightarrow> 'f Offset
     \<Rightarrow> Tile option \<times> TileCache" where
  "getCachedTile L tc now params x y lod offset =
     (let key = getTileKey L params x y lod offset
      in case TileCache_Get tc key of
           Some tile \<Rightarrow> (let tile' = tile\<lparr> t_LastAccessed := now \<rparr>
                         in (Some tile', TileCache_Set tc key tile'))
         | None \<Rightarrow> (None, tc))"

text \<open>
  The scan of \<open>cacheTile\<close> for the entry to evict:
  \<^verbatim>\<open>if oldestKey == "" || v.LastAccessed.Before(oldestTime) { oldestKey = k; oldestTime = v.LastAccessed }\<close>
  run over the entries in the order \<open>range\<close> visits them.
\<close>

definition scanStep :: "string \<times> Tile \<Rightarrow> string \<times> nat \<Rightarrow> string \<times> nat" where
  "scanStep kv st =
     (if fst st = [] \<or> t_LastAccessed (snd kv) < snd st then (fst kv, t_LastAccessed (snd kv))
      else st)"

definition scanOldest :: "(string \<times> Tile) list \<Rightarrow> string \<times> nat" where
  "scanOldest entries = fold scanStep entries ([], 0)"

definition cacheTile :: "'f golib \<Rightarrow> TileCache \<Rightarrow> 'f JuliaParams \<Rightarrow> Tile \<Rightarrow> 'f Offset \<Rightarrow> TileCache" where
  "cacheTile L tc params tile offset =
     (let key = getTileKey L params (t_X tile) (t_Y tile) (t_LOD tile) offset;
          tc1 = TileCache_Set tc key tile
      in if TileCache_Len tc1 > MaxCacheSize
         then TileCache_Delete tc1 (fst (scanOldest (map_range L tc1))) else tc1)"

section \<open>Scheduler\<close>

text \<open>
  The body of the goroutine started for one requested tile, with the cache passed
  through and \<open>now\<close> the value its one call of \<open>time.Now()\<close> returns.
\<close>

definition tileTask ::
  "'f golib \<Rightarrow> 'f JuliaParams \<Rightarrow> 'f Offset \<Rightarrow> TileCache \<Rightarrow> nat \<Rightarrow> TileRequest
     \<Rightarrow> panic + Tile \<times> TileCache" where
  "tileTask L params offset tc now r =
     (let tx = r_X r; ty = r_Y r; lod = r_LOD r;
          tileWidth = clipExtent (p_Width params) tx;
          tileHeight = clipExtent (p_Height params) ty
      in case getCachedTile L tc now params tx ty lod offset of
           (Some cachedTile, tc') \<Rightarrow> Inr (cachedTile, tc')
         | (None, _) \<Rightarrow>
             (case generateJuliaTile L now params tx ty tileWidth tileHeight lod offset of
                Inl e \<Rightarrow> Inl e
              | Inr tile \<Rightarrow> Inr (tile, cacheTile L tc params tile offset)))"

text \<open>
  The tasks of one batch, run one after the other in dispatch order (one of the
  schedules the runtime may choose); \<open>clock k\<close> is the time the \<open>k\<close>-th task reads.
  The tiles come out in the order they were sent on the channel.
\<close>

fun runTasks ::
  "'f golib \<Rightarrow> 'f JuliaParams \<Rightarrow> 'f Offset \<Rightarrow> (nat \<Rightarrow> nat) \<Rightarrow> nat \<Rightarrow> TileCache
     \<Rightarrow> TileRequest list \<Rightarrow> panic + Tile list \<times> TileCache" where
  "runTasks L params offset clock k tc [] = Inr ([], tc)"
| "runTasks L params offset clock k tc (r # rs) =
     (case tileTask L params offset tc (clock k) r of
        Inl e \<Rightarrow> Inl e
      | Inr (tile, tc') \<Rightarrow>
          (case runTasks L params offset clock (Suc k) tc' rs of
             Inl e \<Rightarrow> Inl e
           | Inr (tiles, tc'') \<Rightarrow> Inr (tile # tiles, tc'')))"

definition generateJuliaSet ::
  "'f golib \<Rightarrow> (nat \<Rightarrow> nat) \<Rightarrow> TileCache \<Rightarrow> 'f JuliaParams \<Rightarrow> TileRequest list \<Rightarrow> 'f Offset
     \<Rightarrow> panic + Tile list \<times> TileCache" where
  "generateJuliaSet L clock tc params requestedTiles offset =
     runTasks L params offset clock 0 tc (sort_Slice L (less_req params) requestedTiles)"

section \<open>Session handler\<close>

record 'f Request =
  q_Params :: "'f JuliaParams"
  q_Tiles :: "string list"
  q_Offset :: "'f Offset"

record Message =
  m_type :: string
  m_x :: int
  m_y :: int
  m_width :: int
  m_height :: int
  m_lod :: int
  m_image :: string

datatype session = AwaitingMessage | Closed

text \<open>
  \<^verbatim>\<open>var x, y int; fmt.Sscanf(tile, "%d,%d", &x, &y)\<close>: the error is dropped and a
  variable that was not written keeps its zero value. The request takes the level of
  detail of the parameters as they were decoded.
\<close>

definition scanTile :: "'f JuliaParams \<Rightarrow> string \<Rightarrow> TileRequest" where
  "scanTile params tile =
     (let x = (case fst (Sscanf_d_d tile) of None \<Rightarrow> 0 | Some v \<Rightarrow> v);
          y = (case snd (Sscanf_d_d tile) of None \<Rightarrow> 0 | Some v \<Rightarrow> v)
      in \<lparr> r_X = x, r_Y = y, r_LOD = p_LOD params \<rparr>)"

definition requestedTiles_of :: "'f Request \<Rightarrow> TileRequest list" where
  "requestedTiles_of request = map (scanTile (q_Params request)) (q_Tiles request)"

definition validate :: "'f JuliaParams \<Rightarrow> 'f JuliaParams" where
  "validate params = (if p_LOD params < 1 then params\<lparr> p_LOD := 1 \<rparr> else params)"

definition tileMessage :: "'f golib \<Rightarrow> Tile \<Rightarrow> Message" where
  "tileMessage L tile =
     \<lparr> m_type = ''tile'', m_x = t_X tile, m_y = t_Y tile, m_width = t_Width tile,
       m_height = t_Height tile, m_lod = t_LOD tile,
       m_image = base64_EncodeToString L (t_Image tile) \<rparr>"

text \<open>
  The loop over the channel: \<open>conn k\<close> tells whether the \<open>k\<close>-th \<open>WriteJSON\<close> of the
  batch succeeds. The first failure ends the session.
\<close>

fun sendTiles :: "'f golib \<Rightarrow> (nat \<Rightarrow> bool) \<Rightarrow> nat \<Rightarrow> Tile list \<Rightarrow> Message list \<times> session" where
  "sendTiles L conn k [] = ([], AwaitingMessage)"
| "sendTiles L conn k (tile # tiles) =
     (if conn k then (case sendTiles L conn (Suc k) tiles of
                        (sent, st) \<Rightarrow> (tileMessage L tile # sent, st))
      else ([], Closed))"

text \<open>
  One turn of the loop of \<open>wsHandler\<close> on a message read from the connection:
  \<open>None\<close> stands for a message \<open>json.Unmarshal\<close> rejects. The result is the
  messages written, the state of the session and the cache.
\<close>

definition wsHandler_step ::
  "'f golib \<Rightarrow> (nat \<Rightarrow> bool) \<Rightarrow> (nat \<Rightarrow> nat) \<Rightarrow> TileCache \<Rightarrow> 'f Request option
     \<Rightarrow> panic + Message list \<times> session \<times> TileCache" where
  "wsHandler_step L conn clock tc decoded =
     (case decoded of
        None \<Rightarrow> Inr ([], Closed, tc)
      | Some request \<Rightarrow>
          (let params = q_Params request;
               requestedTiles = requestedTiles_of request;
               params' = validate params
           in case generateJuliaSet L clock tc params' requestedTiles (q_Offset request) of
                Inl e \<Rightarrow> Inl e
              | Inr (tiles, tc') \<Rightarrow>
                  (case sendTiles L conn 0 tiles of (sent, st) \<Rightarrow> Inr (sent, st, tc'))))"

section \<open>The handler that encodes while streaming\<close>

text \<open>
  The other tiled server of the repository keeps the pixel buffer in the tile and encodes
  it in the handler: \<open>encodeTile\<close> returns the error of \<open>png.Encode\<close>, and the loop
  over the channel skips a tile whose encoding failed (\<open>continue\<close>) before it writes.
\<close>

record 'f StoredTile =
  s_X :: int
  s_Y :: int
  s_Zoom :: 'f
  s_Image :: RGBA_image
  s_LastUsed :: nat

record 'f TileMessage =
  tm_X :: int
  tm_Y :: int
  tm_Zoom :: 'f
  tm_Data :: string

datatype encode_error = PngError

definition encodeTile :: "'f golib \<Rightarrow> 'f StoredTile \<Rightarrow> encode_error + 'f TileMessage" where
  "encodeTile L tile =
     (case png_Encode L (s_Image tile) of
        (buf, err) \<Rightarrow>
          if err then Inl PngError
          else Inr \<lparr> tm_X = s_X tile, tm_Y = s_Y tile, tm_Zoom = s_Zoom tile,
                     tm_Data = base64_EncodeToString L buf \<rparr>)"

fun sendEncodedTiles ::
  "'f golib \<Rightarrow> (nat \<Rightarrow> bool) \<Rightarrow> nat \<Rightarrow> 'f StoredTile list \<Rightarrow> 'f TileMessage list \<times> session" where
  "sendEncodedTiles L conn k [] = ([], AwaitingMessage)"
| "sendEncodedTiles L conn k (tile # tiles) =
     (case encodeTile L tile of
        Inl e \<Rightarrow> sendEncodedTiles L conn k tiles
      | Inr tileMsg \<Rightarrow>
          if conn k then (case sendEncodedTiles L conn (Suc k) tiles of
                            (sent, st) \<Rightarrow> (tileMsg # sent, st))
          else ([], Closed))"

section \<open>A reference library over the real numbers\<close>

text \<open>
  The library parameters read as exact real arithmetic. It agrees with IEEE-754
  \<open>float64\<close> on every computation whose intermediate results are representable, and
  is used to evaluate the program on such inputs. \<open>fmt_real\<close> is the verb \<open>%f\<close>:
  six decimals, the exact value rounded to nearest, ties to even.
\<close>

definition trunc_real :: "real \<Rightarrow> int" where
  "trunc_real x = (if x < 0 then - \<lfloor>- x\<rfloor> else \<lfloor>x\<rfloor>)"

definition round_even :: "real \<Rightarrow> nat" where
  "round_even x =
     (let f = \<lfloor>x\<rfloor>; d = x - of_int f
      in nat (if 1/2 < d \<or> (d = 1/2 \<and> odd f) then f + 1 else f))"

definition pad6 :: "string \<Rightarrow> string" where
  "pad6 ds = replicate (6 - length ds) CHR ''0'' @ ds"

definition fmt_real :: "real \<Rightarrow> string" where
  "fmt_real x =
     (let n = round_even (\<bar>x\<bar> * 1000000)
      in (if x < 0 then [CHR ''-''] else []) @ digits (n div 1000000) @ [CHR ''.''] @
         pad6 (digits (n mod 1000000)))"

definition atan2_real :: "real \<Rightarrow> real \<Rightarrow> real" where
  "atan2_real y x =
     (if 0 < x then arctan (y / x)
      else if x < 0 then (if 0 \<le> y then arctan (y / x) + pi else arctan (y / x) - pi)
      else if 0 < y then pi / 2 else if y < 0 then - pi / 2 else 0)"

definition pow_real :: "real \<Rightarrow> real \<Rightarrow> real" where
  "pow_real x y =
     (if y = 0 then 1 else if 0 < x then x powr y
      else if x = 0 then 0
      else if of_int \<lfloor>y\<rfloor> = y then (if 0 \<le> y then x ^ nat \<lfloor>y\<rfloor> else 1 / x ^ nat (- \<lfloor>y\<rfloor>))
      else 0)"

text \<open>go-colorful's \<open>Hsv\<close> followed by \<open>RGB255\<close>, on real numbers.\<close>

definition rgb255_real :: "real \<Rightarrow> u8" where
  "rgb255_real v = word_of_int (trunc_real (v * 255 + 1/2))"

definition hsv_real :: "real \<Rightarrow> real \<Rightarrow> real \<Rightarrow> u8 \<times> u8 \<times> u8" where
  "hsv_real h s v =
     (let hp = h / 60; c = v * s;
          hm = hp - 2 * of_int (trunc_real (hp / 2));
          x = c * (1 - \<bar>hm - 1\<bar>); m = v - c;
          (r, g, b) =
            (if 0 \<le> hp \<and> hp < 1 then (c, x, 0)
             else if 1 \<le> hp \<and> hp < 2 then (x, c, 0)
             else if 2 \<le> hp \<and> hp < 3 then (0, c, x)
             else if 3 \<le> hp \<and> hp < 4 then (0, x, c)
             else if 4 \<le> hp \<and> hp < 5 then (x, 0, c)
             else if 5 \<le> hp \<and> hp < 6 then (c, 0, x)
             else (0, 0, 0))
      in (rgb255_real (m + r), rgb255_real (m + g), rgb255_real (m + b)))"

text \<open>
  \<open>png.Encode\<close> rejects an image with an empty extent (or one of \<open>2^32\<close> and more)
  before writing anything. The bytes of an accepted image stand for the PNG stream:
  the codec is lossless, and so is this stand-in (both extents, then the pixels).
\<close>

definition encode_image :: "RGBA_image \<Rightarrow> u8 list \<times> bool" where
  "encode_image img =
     (let mw = img_MaxX img - img_MinX img; mh = img_MaxY img - img_MinY img
      in if mw \<le> 0 \<or> mh \<le> 0 \<or> 2 ^ 32 \<le> mw \<or> 2 ^ 32 \<le> mh then ([], True)
         else (map (\<lambda>c. word_of_nat (of_char c)) (fmt_d mw @ [CHR ''x''] @ fmt_d mh @ [CHR '':'']) @
               concat (map (\<lambda>p. [cR p, cG p, cB p, cA p]) (img_Pix img)), False))"

definition base64_alphabet :: string where
  "base64_alphabet = ''ABCDEFGHIJKLMNOPQRSTUVWXYZabcdefghijklmnopqrstuvwxyz0123456789+/''"

fun base64 :: "u8 list \<Rightarrow> string" where
  "base64 (a # b # c # rest) =
     (let n = unat a * 65536 + unat b * 256 + unat c
      in [base64_alphabet ! (n div 262144), base64_alphabet ! (n div 4096 mod 64),
          base64_alphabet ! (n div 64 mod 64), base64_alphabet ! (n mod 64)] @ base64 rest)"
| "base64 [a, b] =
     (let n = unat a * 65536 + unat b * 256
      in [base64_alphabet ! (n div 262144), base64_alphabet ! (n div 4096 mod 64),
          base64_alphabet ! (n div 64 mod 64), CHR ''=''])"
| "base64 [a] =
     (let n = unat a * 65536
      in [base64_alphabet ! (n div 262144), base64_alphabet ! (n div 4096 mod 64),
          CHR ''='', CHR ''=''])"
| "base64 [] = []"

text \<open>
  The insertion sort \<open>sort.Slice\<close> runs on a short slice: each element moves left
  past the elements it is less than. The sorted prefix is kept reversed.
\<close>

fun insertLeft :: "('a \<Rightarrow> 'a \<Rightarrow> bool) \<Rightarrow> 'a \<Rightarrow> 'a list \<Rightarrow> 'a list" where
  "insertLeft lt x [] = [x]"
| "insertLeft lt x (y # ys) = (if lt x y then y # insertLeft lt x ys else x # y # ys)"

definition insertionSort :: "('a \<Rightarrow> 'a \<Rightarrow> bool) \<Rightarrow> 'a list \<Rightarrow> 'a list" where
  "insertionSort lt xs = rev (foldl (\<lambda>acc x. insertLeft lt x acc) [] xs)"

definition real_lib :: "real golib" where
  "real_lib =
     \<lparr> f_add = (+), f_sub = (-), f_mul = (*), f_div = (/), f_neg = uminus,
       f_gt = (\<lambda>a b. b < a), f_int = of_int, f_lit = of_rat, f_pi = (\<lambda>q. of_rat q * pi),
       f_log = ln, f_sin = sin, f_cos = cos, f_exp = exp, f_pow = pow_real,
       f_atan2 = atan2_real,
       c_abs = (\<lambda>z. sqrt (fst z * fst z + snd z * snd z)),
       c_phase = (\<lambda>z. atan2_real (snd z) (fst z)),
       f_uint8 = (\<lambda>x. word_of_int (trunc_real x)), f_to_int = trunc_real,
       fmt_f = fmt_real, hsv_rgb255 = hsv_real, png_Encode = encode_image,
       base64_EncodeToString = base64, sort_Slice = insertionSort,
       map_range = (\<lambda>entries. entries) \<rparr>"

section \<open>Notions used to state the properties\<close>

text \<open>The orbit of a point: \<open>k\<close> applications of \<open>z = z*z + c\<close>.\<close>

definition orbit :: "'f golib \<Rightarrow> 'f \<times> 'f \<Rightarrow> nat \<Rightarrow> 'f \<times> 'f \<Rightarrow> 'f \<times> 'f" where
  "orbit L c k z = ((\<lambda>u. c_add L (c_mul L u u) c) ^^ k) z"

text \<open>\<open>cmplx.Abs(z) > 2\<close>\<close>

definition exceeds :: "'f golib \<Rightarrow> 'f \<times> 'f \<Rightarrow> bool" where
  "exceeds L z = f_gt L (c_abs L z) (f_lit L 2)"

text \<open>
  What \<open>sort.Slice\<close> promises of its result \<open>ys\<close> on input \<open>xs\<close>: the same
  elements, none placed after an element it is less than. The sort is not stable.
\<close>

definition sorts_by :: "('a \<Rightarrow> 'a \<Rightarrow> bool) \<Rightarrow> 'a list \<Rightarrow> 'a list \<Rightarrow> bool" where
  "sorts_by lt xs ys \<longleftrightarrow> mset ys = mset xs \<and> sorted_wrt (\<lambda>a b. \<not> lt b a) ys"

text \<open>
  A run of calls of \<open>cacheTile\<close>, one after the other: each item gives the parameters,
  the tile and the offset of one call.
\<close>

definition itemKey :: "'f golib \<Rightarrow> 'f JuliaParams \<times> Tile \<times> 'f Offset \<Rightarrow> string" where
  "itemKey L item =
     (case item of (params, tile, offset) \<Rightarrow>
        getTileKey L params (t_X tile) (t_Y tile) (t_LOD tile) offset)"

definition itemEntry :: "'f golib \<Rightarrow> 'f JuliaParams \<times> Tile \<times> 'f Offset \<Rightarrow> string \<times> Tile" where
  "itemEntry L item = (itemKey L item, fst (snd item))"

definition cacheTiles ::
  "'f golib \<Rightarrow> TileCache \<Rightarrow> ('f JuliaParams \<times> Tile \<times> 'f Offset) list \<Rightarrow> TileCache" where
  "cacheTiles L tc items =
     foldl (\<lambda>tc item. case item of (params, tile, offset) \<Rightarrow> cacheTile L tc params tile offset)
       tc items"

text \<open>
  The squared Euclidean distance of a request's origin to the canvas center
  \<open>(width/2, height/2)\<close>, in unbounded integers; the halves are the integer quotients.
\<close>

definition sq_distance :: "'f JuliaParams \<Rightarrow> TileRequest \<Rightarrow> int" where
  "sq_distance params r =
     (r_X r - sgn (p_Width params) * (\<bar>p_Width params\<bar> div 2)) ^ 2 +
     (r_Y r - sgn (p_Height params) * (\<bar>p_Height params\<bar> div 2)) ^ 2"

definition near_center :: "'f JuliaParams \<Rightarrow> TileRequest \<Rightarrow> bool" where
  "near_center params r \<longleftrightarrow>
     \<bar>r_X r - sgn (p_Width params) * (\<bar>p_Width params\<bar> div 2)\<bar> < 2 ^ 26 \<and>
     \<bar>r_Y r - sgn (p_Height params) * (\<bar>p_Height params\<bar> div 2)\<bar> < 2 ^ 26"

text \<open>
  The pixel of an image at a point, as \<open>RGBAAt\<close> of the library reads it: the zero
  color outside the bounds.
\<close>

definition RGBAAt :: "RGBA_image \<Rightarrow> int \<Rightarrow> int \<Rightarrow> RGBA" where
  "RGBAAt img x y =
     (if img_MinX img \<le> x \<and> x < img_MaxX img \<and> img_MinY img \<le> y \<and> y < img_MaxY img
      then img_Pix img !
             nat ((y - img_MinY img) * (img_MaxX img - img_MinX img) + (x - img_MinX img))
      else RGBA 0 0 0 0)"

text \<open>An image with its origin at \<open>(0, 0)\<close>, of the given extents.\<close>

definition has_extents :: "RGBA_image \<Rightarrow> int \<Rightarrow> int \<Rightarrow> bool" where
  "has_extents img w h \<longleftrightarrow>
     img_MinX img = 0 \<and> img_MinY img = 0 \<and> img_MaxX img = w \<and> img_MaxY img = h \<and>
     length (img_Pix img) = nat (w * h)"

text \<open>
  \<open>image.NewRGBA\<close> returns an image for the clipped extents of a request: the task of
  the request does not panic.
\<close>

definition allocatable :: "'f JuliaParams \<Rightarrow> TileRequest \<Rightarrow> bool" where
  "allocatable params r \<longleftrightarrow>
     \<not> isl (NewRGBA (clipExtent (p_Width params) (r_X r)) (clipExtent (p_Height params) (r_Y r)))"

text \<open>No comma inside a printed field of the key.\<close>

definition comma_free :: "string \<Rightarrow> bool" where
  "comma_free s \<longleftrightarrow> CHR '','' \<notin> set s"

text \<open>
  Every entry of the cache was stored by a task: its key is the key of its tile under some
  parameters and offset, and its extents are the clipped extents for those parameters.
\<close>

definition cache_ok :: "'f golib \<Rightarrow> TileCache \<Rightarrow> bool" where
  "cache_ok L tc \<longleftrightarrow>
     (\<forall>(key, tile) \<in> set tc. \<exists>params offset.
        key = getTileKey L params (t_X tile) (t_Y tile) (t_LOD tile) offset \<and>
        t_Width tile = clipExtent (p_Width params) (t_X tile) \<and>
        t_Height tile = clipExtent (p_Height params) (t_Y tile))"

section \<open>Inputs used to evaluate the program\<close>

definition example_params :: "real JuliaParams" where
  "example_params =
     \<lparr> p_C = \<lparr> c_Real = - 8 / 10, c_Imag = 156 / 1000 \<rparr>,
       p_Center = \<lparr> c_Real = 0, c_Imag = 0 \<rparr>, p_Zoom = 1, p_Coloring = 1,
       p_MaxIterations = 100, p_Width = 300, p_Height = 200, p_LOD = 1 \<rparr>"

definition no_offset :: "real Offset" where
  "no_offset = \<lparr> o_X = 0, o_Y = 0 \<rparr>"


definition lod0_request :: "real Request" where
  "lod0_request =
     \<lparr> q_Params = example_params\<lparr> p_LOD := 0 \<rparr>, q_Tiles = [''0,0''], q_Offset = no_offset \<rparr>"

definition example_tile :: "nat \<Rightarrow> Tile" where
  "example_tile i =
     \<lparr> t_X = int i, t_Y = 0, t_Width = 1, t_Height = 1, t_LOD = 1, t_Image = [],
       t_LastAccessed = i \<rparr>"

definition example_items :: "(real JuliaParams \<times> Tile \<times> real Offset) list" where
  "example_items = map (\<lambda>i. (example_params, example_tile i, no_offset)) [0..<1001]"

definition example_requests :: "TileRequest list" where
  "example_requests =
     [\<lparr> r_X = 0, r_Y = 0, r_LOD = 2 \<rparr>, \<lparr> r_X = 256, r_Y = 128, r_LOD = 1 \<rparr>,
      \<lparr> r_X = 128, r_Y = 128, r_LOD = 2 \<rparr>, \<lparr> r_X = 128, r_Y = 0, r_LOD = 1 \<rparr>]"

definition far_request :: TileRequest where
  "far_request = \<lparr> r_X = 9007199254741143, r_Y = 100, r_LOD = 1 \<rparr>"

definition near_request :: TileRequest where
  "near_request = \<lparr> r_X = 9007199254741142, r_Y = 100, r_LOD = 1 \<rparr>"

definition mixed_requests :: "TileRequest list" where
  "mixed_requests = far_request # example_requests"

definition off_canvas_request :: "real Request" where
  "off_canvas_request =
     \<lparr> q_Params = example_params, q_Tiles = [''1000000000000300,x''], q_Offset = no_offset \<rparr>"

definition edge_request :: "real Request" where
  "edge_request =
     \<lparr> q_Params = example_params, q_Tiles = [''300,0'', ''128,0''], q_Offset = no_offset \<rparr>"

definition collide_a :: "real JuliaParams" where
  "collide_a =
     \<lparr> p_C = \<lparr> c_Real = 0, c_Imag = 0 \<rparr>, p_Center = \<lparr> c_Real = 5 / 2, c_Imag = 1 / 2 \<rparr>,
       p_Zoom = 1, p_Coloring = 10, p_MaxIterations = 1, p_Width = 1, p_Height = 1, p_LOD = 1 \<rparr>"

definition collide_b :: "real JuliaParams" where
  "collide_b = collide_a\<lparr> p_Center := \<lparr> c_Real = 5 / 2 + 1 / 2 ^ 30, c_Imag = 1 / 2 \<rparr> \<rparr>"

section \<open>Where the program can panic\<close>

text \<open>
  The table lookup of \<open>GreyPalette\<close> does not panic: the escape-time loop never
  hands it a negative index. The loops over the pixels return for every image, so a
  tile is generated exactly when \<open>image.NewRGBA\<close> returns an image.
\<close>

lemma escape_nonneg: "0 \<le> i \<Longrightarrow> 0 \<le> fst (escape L c m i z)"
proof (induction L c m i z rule: escape.induct)
  case (1 L c m i z)
  show ?case
    using "1.prems" "1.IH" by (subst escape.simps) auto
qed

lemma escape_le: "i \<le> m \<Longrightarrow> fst (escape L c m i z) \<le> m"
proof (induction L c m i z rule: escape.induct)
  case (1 L c m i z)
  show ?case
    using "1.prems" "1.IH" by (subst escape.simps) auto
qed

lemma length_createGreyPalette: "length (createGreyPalette L) = 256"
  by (simp add: createGreyPalette_def)

lemma go_rem_nonneg: "0 \<le> i \<Longrightarrow> 0 < b \<Longrightarrow> 0 \<le> go_rem i b \<and> go_rem i b < b"
  by (auto simp: go_rem_def sgn_if)

lemma GreyPalette_Inr: "0 \<le> i \<Longrightarrow> \<exists>c. GreyPalette L i m z = Inr c"
  using go_rem_nonneg [of i 256]
  by (simp add: GreyPalette_def Let_def length_createGreyPalette)

lemma ReturnRGBA_Inr: "0 \<le> i \<Longrightarrow> \<exists>c. ReturnRGBA L col i m z x y = Inr c"
  using GreyPalette_Inr [of i L m z] by (auto simp: ReturnRGBA_def)

lemma juliaPixel_Inr: "\<exists>c. juliaPixel L params tileX tileY offset y px py = Inr c"
proof -
  obtain i z where e: "escape L (c_Real (p_C params), c_Imag (p_C params)) (p_MaxIterations params) 0
     (plane_coord L (go_add tileX px) (o_X offset) (p_Zoom params) (p_Width params)
                (c_Real (p_Center params)), y) = (i, z)"
    by (cases "escape L (c_Real (p_C params), c_Imag (p_C params)) (p_MaxIterations params) 0
     (plane_coord L (go_add tileX px) (o_X offset) (p_Zoom params) (p_Width params)
                (c_Real (p_Center params)), y)") auto
  have "0 \<le> fst (escape L (c_Real (p_C params), c_Imag (p_C params)) (p_MaxIterations params) 0
     (plane_coord L (go_add tileX px) (o_X offset) (p_Zoom params) (p_Width params)
                (c_Real (p_Center params)), y))"
    by (rule escape_nonneg) simp
  then have "0 \<le> i" by (simp add: e)
  then show ?thesis
    using ReturnRGBA_Inr [of i L] by (simp add: juliaPixel_def Let_def e)
qed

lemma rowLoop_Inr: "\<exists>img'. rowLoop L params tileX tileY tileWidth offset y py px img = Inr img'"
proof (induction L params tileX tileY tileWidth offset y py px img rule: rowLoop.induct)
  case (1 L params tileX tileY tileWidth offset y py px img)
  obtain c where c: "juliaPixel L params tileX tileY offset y px py = Inr c"
    using juliaPixel_Inr [of L params tileX tileY offset y px py] by auto
  show ?case
    using "1.IH" [OF _ c] c by (subst rowLoop.simps) auto
qed

lemma tileLoop_Inr:
  "\<exists>img'. tileLoop L params tileX tileY tileWidth tileHeight offset py img = Inr img'"
proof (induction L params tileX tileY tileWidth tileHeight offset py img rule: tileLoop.induct)
  case (1 L params tileX tileY tileWidth tileHeight offset py img)
  define y where "y = plane_coord L (go_add tileY py) (o_Y offset) (p_Zoom params) (p_Height params)
                   (c_Imag (p_Center params))"
  obtain img' where r: "rowLoop L params tileX tileY tileWidth offset y py 0 img = Inr img'"
    using rowLoop_Inr [of L params tileX tileY tileWidth offset y py 0 img] by auto
  show ?case
    using "1.IH" [OF _ y_def r] r by (subst tileLoop.simps) (auto simp: Let_def y_def)
qed

lemma mul3NonNeg_4:
  assumes "0 \<le> a" "a \<le> 2 ^ 20" "0 \<le> b" "b \<le> 2 ^ 20"
  shows "mul3NonNeg 4 a b = 4 * (a * b)" "4 * (a * b) \<le> maxAlloc"
proof -
  have "a * b \<le> 2 ^ 20 * 2 ^ 20"
    using assms by (intro mult_mono) simp_all
  then have le: "a * b \<le> 2 ^ 40" by simp
  have nn: "0 \<le> a * b" using assms by simp
  show "mul3NonNeg 4 a b = 4 * (a * b)"
    using assms le nn by (simp add: mul3NonNeg_def)
  show "4 * (a * b) \<le> maxAlloc"
    using le by (simp add: maxAlloc_def)
qed

lemma NewRGBA_small:
  assumes "- (2 ^ 20) \<le> w" "w \<le> 2 ^ 20" "- (2 ^ 20) \<le> h" "h \<le> 2 ^ 20"
  shows "NewRGBA w h =
           Inr \<lparr> img_MinX = min 0 w, img_MinY = min 0 h, img_MaxX = max 0 w, img_MaxY = max 0 h,
                 img_Pix = replicate (nat (\<bar>w\<bar> * \<bar>h\<bar>)) (RGBA 0 0 0 0) \<rparr>"
proof -
  have dx: "go_sub (max 0 w) (min 0 w) = \<bar>w\<bar>"
    using assms(1,2) by (auto simp: go_sub_def wrap64_def)
  have dy: "go_sub (max 0 h) (min 0 h) = \<bar>h\<bar>"
    using assms(3,4) by (auto simp: go_sub_def wrap64_def)
  have b: "0 \<le> \<bar>w\<bar>" "\<bar>w\<bar> \<le> 2 ^ 20" "0 \<le> \<bar>h\<bar>" "\<bar>h\<bar> \<le> 2 ^ 20"
    using assms by auto
  note m = mul3NonNeg_4 [OF b]
  have "0 \<le> \<bar>w\<bar> * \<bar>h\<bar>" by (intro mult_nonneg_nonneg) simp_all
  then have nn: "\<not> 4 * (\<bar>w\<bar> * \<bar>h\<bar>) < 0" "\<not> maxAlloc < 4 * (\<bar>w\<bar> * \<bar>h\<bar>)"
    using m(2) by linarith+
  have d: "4 * (\<bar>w\<bar> * \<bar>h\<bar>) div 4 = \<bar>w\<bar> * \<bar>h\<bar>" by simp
  show ?thesis
    by (simp only: NewRGBA_def Let_def dx dy m(1) nn d if_False)
qed

lemma NewRGBA_shape:
  assumes "NewRGBA w h = Inr img" "0 \<le> w" "in_int64 w" "0 \<le> h" "in_int64 h"
  shows "img_MinX img = 0 \<and> img_MinY img = 0 \<and> img_MaxX img = w \<and> img_MaxY img = h \<and>
         length (img_Pix img) = nat (w * h)"
proof -
  have dx: "go_sub w 0 = w"
    using assms(2,3) by (simp add: go_sub_def wrap64_def in_int64_def)
  have dy: "go_sub h 0 = h"
    using assms(4,5) by (simp add: go_sub_def wrap64_def in_int64_def)
  have "mul3NonNeg 4 w h = - 1 \<or> mul3NonNeg 4 w h = 4 * (w * h)"
    by (simp add: mul3NonNeg_def)
  then show ?thesis
    using assms(1,2,4)
    by (auto simp: NewRGBA_def Let_def dx dy split: if_splits)
qed

lemma generateJuliaTile_Inr:
  assumes "NewRGBA tileWidth tileHeight = Inr img0"
  shows "\<exists>img. tileLoop L params tileX tileY tileWidth tileHeight offset 0 img0 = Inr img \<and>
         generateJuliaTile L now params tileX tileY tileWidth tileHeight lod offset =
           Inr \<lparr> t_X = tileX, t_Y = tileY, t_Width = tileWidth, t_Height = tileHeight,
                 t_LOD = lod, t_Image = fst (png_Encode L img), t_LastAccessed = now \<rparr>"
  using tileLoop_Inr [of L params tileX tileY tileWidth tileHeight offset 0 img0] assms
  by (auto simp: generateJuliaTile_def)

lemma generateJuliaTile_Inl:
  assumes "NewRGBA tileWidth tileHeight = Inl e"
  shows "generateJuliaTile L now params tileX tileY tileWidth tileHeight lod offset = Inl e"
  using assms by (simp add: generateJuliaTile_def)

lemma generateJuliaTile_isl:
  "isl (generateJuliaTile L now params tileX tileY tileWidth tileHeight lod offset) =
   isl (NewRGBA tileWidth tileHeight)"
proof (cases "NewRGBA tileWidth tileHeight")
  case (Inl e)
  then show ?thesis by (simp add: generateJuliaTile_Inl)
next
  case (Inr img0)
  from generateJuliaTile_Inr [OF this, of L params tileX tileY offset now lod] Inr
  show ?thesis by auto
qed



text \<open>
  The extents the scheduler computes for an origin far off the canvas are refused: the
  first length is above the allocation limit, the second does not fit an \<open>int\<close>.
\<close>

lemma NewRGBA_off_canvas: "NewRGBA (- 1000000000000000) 128 = Inl MakeSliceLen"
  by (simp add: NewRGBA_def Let_def go_sub_def wrap64_def mul3NonNeg_def maxAlloc_def)

lemma NewRGBA_huge: "NewRGBA (- (2 ^ 62)) 128 = Inl HugeRectangle"
  by (simp add: NewRGBA_def Let_def go_sub_def wrap64_def mul3NonNeg_def maxAlloc_def)

section \<open>Decimal text determines the integer\<close>

lemma of_char_digit_char: "d < 10 \<Longrightarrow> (of_char (digit_char d) :: nat) = 48 + d"
  by (simp add: digit_char_def)

lemma digits_value_snoc:
  "digits_value (ds @ [c]) = 10 * digits_value ds + (of_char c - 48)"
  by (simp add: digits_value_def)

lemma digits_value_digits: "digits_value (digits n) = n"
proof (induction n rule: digits.induct)
  case (1 n)
  show ?case
  proof (cases "n < 10")
    case True
    then show ?thesis
      by (subst digits.simps) (simp add: digits_value_def of_char_digit_char)
  next
    case False
    then show ?thesis
      using "1.IH" by (subst digits.simps) (simp add: digits_value_snoc of_char_digit_char)
  qed
qed

lemma digits_inj: "digits m = digits n \<Longrightarrow> m = n"
  by (metis digits_value_digits)

lemma is_digit_digit_char: "d < 10 \<Longrightarrow> is_digit (digit_char d)"
  by (simp add: is_digit_def of_char_digit_char)

lemma digits_all_digit: "c \<in> set (digits n) \<Longrightarrow> is_digit c"
proof (induction n rule: digits.induct)
  case (1 n)
  show ?case
  proof (cases "n < 10")
    case True
    with "1.prems" show ?thesis
      by (subst (asm) digits.simps) (simp add: is_digit_digit_char)
  next
    case False
    with "1.prems" "1.IH" show ?thesis
      by (subst (asm) digits.simps) (auto simp: is_digit_digit_char)
  qed
qed

lemma digits_nonempty: "digits n \<noteq> []"
  by (subst digits.simps) simp

lemma minus_not_digit: "\<not> is_digit CHR ''-''"
  by (simp add: is_digit_def)

lemma comma_not_digit: "\<not> is_digit CHR '',''"
  by (simp add: is_digit_def)

lemma digits_no_minus_head: "digits n \<noteq> CHR ''-'' # s"
  using digits_all_digit [of "CHR ''-''" n] minus_not_digit
  by (metis list.set_intros(1))

lemma fmt_d_inj: "fmt_d a = fmt_d b \<Longrightarrow> a = b"
proof -
  assume eq: "fmt_d a = fmt_d b"
  consider (nn) "a < 0" "b < 0" | (np) "a < 0" "\<not> b < 0" | (pn) "\<not> a < 0" "b < 0"
    | (pp) "\<not> a < 0" "\<not> b < 0" by blast
  then show ?thesis
  proof cases
    case nn
    with eq have "digits (nat (- a)) = digits (nat (- b))" by (simp add: fmt_d_def)
    then have "nat (- a) = nat (- b)" by (rule digits_inj)
    with nn show ?thesis by simp
  next
    case np
    with eq have "digits (nat b) = CHR ''-'' # digits (nat (- a))" by (simp add: fmt_d_def)
    then show ?thesis using digits_no_minus_head by blast
  next
    case pn
    with eq have "digits (nat a) = CHR ''-'' # digits (nat (- b))" by (simp add: fmt_d_def)
    then show ?thesis using digits_no_minus_head by blast
  next
    case pp
    with eq have "digits (nat a) = digits (nat b)" by (simp add: fmt_d_def)
    then have "nat a = nat b" by (rule digits_inj)
    with pp show ?thesis by simp
  qed
qed

lemma getTileKey_lod_inj:
  "getTileKey L params x y lod1 offset = getTileKey L params x y lod2 offset \<Longrightarrow> lod1 = lod2"
  by (simp add: getTileKey_def fmt_d_inj)

section \<open>Coloring registry\<close>

text \<open>
  Claim C7. For a coloring id outside 1..12, \<open>ReturnRGBA\<close> does not fail: it returns
  the color \<open>SmoothColorHSV\<close> computes, which is what coloring id 1 returns.
\<close>

theorem ReturnRGBA_unknown_id_default:
  "coloring \<notin> {1..12} \<Longrightarrow>
     ReturnRGBA L coloring i maxIterations z x y = Inr (SmoothColorHSV L i maxIterations z) \<and>
     ReturnRGBA L coloring i maxIterations z x y = ReturnRGBA L 1 i maxIterations z x' y'"
  by (auto simp: ReturnRGBA_def)

theorem ReturnRGBA_unknown_id_default_witness:
  "(13::int) \<notin> {1..12} \<and>
   ReturnRGBA real_lib 13 5 100 (3, 0) 7 9 = Inr (SmoothColorHSV real_lib 5 100 (3, 0)) \<and>
   ReturnRGBA real_lib 13 5 100 (3, 0) 7 9 = ReturnRGBA real_lib 1 5 100 (3, 0) 7 9"
proof -
  have h: "(13::int) \<notin> {1..12}" by simp
  from ReturnRGBA_unknown_id_default [OF h, of real_lib 5 100 "(3, 0)" 7 9 7 9] h
  show ?thesis by blast
qed

section \<open>Level of detail\<close>

lemma generateJuliaTile_lod:
  "generateJuliaTile L now2 params tileX tileY tileWidth tileHeight lod2 offset =
     map_sum id (\<lambda>t. t\<lparr> t_LOD := lod2, t_LastAccessed := now2 \<rparr>)
       (generateJuliaTile L now1 params tileX tileY tileWidth tileHeight lod1 offset)"
  by (simp add: generateJuliaTile_def split: sum.splits)

text \<open>
  Claim C9. Two calls of \<open>generateJuliaTile\<close> that differ only in \<open>lod\<close> (and in
  the time they read) have the same outcome, but for the \<open>LOD\<close> field and the timestamp
  of the tile: the second call returns what the first returns with these two fields
  replaced, a panic of \<open>image.NewRGBA\<close> being the same panic in both. Both return a
  tile exactly when \<open>image.NewRGBA\<close> returns an image for the extents; the two tiles then
  have the same image bytes, origin and extents, and each carries its own \<open>lod\<close>. When
  the two levels differ, so do the cache keys.
\<close>

theorem lod_only_in_LOD_field:
  "generateJuliaTile L now2 params tileX tileY tileWidth tileHeight lod2 offset =
     map_sum id (\<lambda>t. t\<lparr> t_LOD := lod2, t_LastAccessed := now2 \<rparr>)
       (generateJuliaTile L now1 params tileX tileY tileWidth tileHeight lod1 offset) \<and>
   isl (generateJuliaTile L now1 params tileX tileY tileWidth tileHeight lod1 offset) =
     isl (NewRGBA tileWidth tileHeight) \<and>
   isl (generateJuliaTile L now2 params tileX tileY tileWidth tileHeight lod2 offset) =
     isl (NewRGBA tileWidth tileHeight) \<and>
   (\<not> isl (NewRGBA tileWidth tileHeight) \<longrightarrow>
      (\<exists>t1 t2.
           generateJuliaTile L now1 params tileX tileY tileWidth tileHeight lod1 offset = Inr t1 \<and>
           generateJuliaTile L now2 params tileX tileY tileWidth tileHeight lod2 offset = Inr t2 \<and>
           t_Image t1 = t_Image t2 \<and> t_X t1 = t_X t2 \<and> t_Y t1 = t_Y t2 \<and>
           t_Width t1 = t_Width t2 \<and> t_Height t1 = t_Height t2 \<and>
           t_LOD t1 = lod1 \<and> t_LOD t2 = lod2 \<and>
           t2 = t1\<lparr> t_LOD := lod2, t_LastAccessed := now2 \<rparr>)) \<and>
   (lod1 \<noteq> lod2 \<longrightarrow>
      getTileKey L params tileX tileY lod1 offset \<noteq>
      getTileKey L params tileX tileY lod2 offset)"
proof -
  have tiles: "\<exists>t1 t2.
           generateJuliaTile L now1 params tileX tileY tileWidth tileHeight lod1 offset = Inr t1 \<and>
           generateJuliaTile L now2 params tileX tileY tileWidth tileHeight lod2 offset = Inr t2 \<and>
           t_Image t1 = t_Image t2 \<and> t_X t1 = t_X t2 \<and> t_Y t1 = t_Y t2 \<and>
           t_Width t1 = t_Width t2 \<and> t_Height t1 = t_Height t2 \<and>
           t_LOD t1 = lod1 \<and> t_LOD t2 = lod2 \<and>
           t2 = t1\<lparr> t_LOD := lod2, t_LastAccessed := now2 \<rparr>"
    if "\<not> isl (NewRGBA tileWidth tileHeight)"
  proof -
    from that obtain img0 where i: "NewRGBA tileWidth tileHeight = Inr img0"
      by (cases "NewRGBA tileWidth tileHeight") auto
    obtain img where
      "generateJuliaTile L now1 params tileX tileY tileWidth tileHeight lod1 offset =
         Inr \<lparr> t_X = tileX, t_Y = tileY, t_Width = tileWidth, t_Height = tileHeight,
               t_LOD = lod1, t_Image = fst (png_Encode L img), t_LastAccessed = now1 \<rparr>"
      "generateJuliaTile L now2 params tileX tileY tileWidth tileHeight lod2 offset =
         Inr \<lparr> t_X = tileX, t_Y = tileY, t_Width = tileWidth, t_Height = tileHeight,
               t_LOD = lod2, t_Image = fst (png_Encode L img), t_LastAccessed = now2 \<rparr>"
      using generateJuliaTile_Inr [OF i, of L params tileX tileY offset now1 lod1]
        generateJuliaTile_Inr [OF i, of L params tileX tileY offset now2 lod2]
      by auto
    then show ?thesis by auto
  qed
  have eq: "generateJuliaTile L now2 params tileX tileY tileWidth tileHeight lod2 offset =
     map_sum id (\<lambda>t. t\<lparr> t_LOD := lod2, t_LastAccessed := now2 \<rparr>)
       (generateJuliaTile L now1 params tileX tileY tileWidth tileHeight lod1 offset)"
    by (rule generateJuliaTile_lod)
  show ?thesis
    using tiles eq
      generateJuliaTile_isl [of L now1 params tileX tileY tileWidth tileHeight lod1 offset]
      generateJuliaTile_isl [of L now2 params tileX tileY tileWidth tileHeight lod2 offset]
      getTileKey_lod_inj [of L params tileX tileY lod1 offset lod2]
    by blast
qed

theorem lod_only_in_LOD_field_witness:
  "\<not> isl (NewRGBA 44 72) \<and>
   (\<exists>t1 t2. generateJuliaTile real_lib 0 example_params 256 128 44 72 1 no_offset = Inr t1 \<and>
            generateJuliaTile real_lib 5 example_params 256 128 44 72 2 no_offset = Inr t2 \<and>
            t_Image t1 = t_Image t2 \<and> t_Width t1 = t_Width t2 \<and> t_Height t1 = t_Height t2 \<and>
            t_LOD t1 = 1 \<and> t_LOD t2 = 2) \<and>
   (1::int) \<noteq> 2 \<and>
   getTileKey real_lib example_params 256 128 1 no_offset \<noteq>
   getTileKey real_lib example_params 256 128 2 no_offset"
proof -
  have a: "\<not> isl (NewRGBA 44 72)" by (simp add: NewRGBA_small)
  from lod_only_in_LOD_field [of real_lib 5 example_params 256 128 44 72 2 no_offset 0 1] a
  show ?thesis by auto
qed

section \<open>Tile extents\<close>

lemma bit_length_bounds: "0 < n \<Longrightarrow> 2 ^ (bit_length n - 1) \<le> n \<and> n < 2 ^ bit_length n"
proof (induction n rule: bit_length.induct)
  case (1 n)
  show ?case
  proof (cases "n div 2 = 0")
    case True
    with "1.prems" have "n = 1" by presburger
    then show ?thesis by (simp add: bit_length.simps)
  next
    case False
    then have pos: "0 < n div 2" by simp
    from "1.IH" [OF _ pos] "1.prems"
    have ih: "2 ^ (bit_length (n div 2) - 1) \<le> n div 2" "n div 2 < 2 ^ bit_length (n div 2)"
      by auto
    have bl: "bit_length n = Suc (bit_length (n div 2))"
      using "1.prems" by (subst bit_length.simps) simp
    have gt0: "0 < bit_length (n div 2)"
      using pos by (subst bit_length.simps) simp
    then obtain j where j: "bit_length (n div 2) = Suc j" by (cases "bit_length (n div 2)") auto
    define P where "P = (2::nat) ^ j"
    have ih': "P \<le> n div 2" "n div 2 < 2 * P"
      using ih by (simp_all add: j P_def)
    have "n = 2 * (n div 2) + n mod 2" "n mod 2 < 2" by simp_all
    with ih' have "2 * P \<le> n \<and> n < 2 * (2 * P)" by linarith
    then show ?thesis by (simp add: bl j P_def)
  qed
qed

lemma bit_length_le: "n < 2 ^ k \<Longrightarrow> bit_length n \<le> k"
proof (cases "n = 0")
  case True
  then show ?thesis by (simp add: bit_length.simps)
next
  case False
  assume "n < 2 ^ k"
  moreover from False bit_length_bounds [of n] have "2 ^ (bit_length n - 1) \<le> n" by simp
  ultimately have "(2::nat) ^ (bit_length n - 1) < 2 ^ k" by (meson le_less_trans)
  then have "bit_length n - 1 < k" by (simp add: power_strict_increasing_iff)
  then show ?thesis by simp
qed

lemma float64_round_exact: "\<bar>n\<bar> < 2 ^ 53 \<Longrightarrow> float64_round n = n"
proof -
  assume "\<bar>n\<bar> < 2 ^ 53"
  then have "nat \<bar>n\<bar> < 2 ^ 53" by simp
  then have "bit_length (nat \<bar>n\<bar>) \<le> 53" by (rule bit_length_le)
  then show ?thesis by (simp add: float64_round_def Let_def)
qed

lemma float64_round_large: assumes "2 ^ 53 \<le> n" shows "2 ^ 53 \<le> float64_round n"
proof (cases "bit_length (nat \<bar>n\<bar>) \<le> 53")
  case True
  then show ?thesis using assms by (simp add: float64_round_def Let_def)
next
  case False
  define a where "a = nat \<bar>n\<bar>"
  define s where "s = bit_length a - 53"
  define q where "q = a div 2 ^ s"
  have apos: "0 < a" using assms by (simp add: a_def)
  have k: "bit_length a = s + 53" using False by (simp add: s_def a_def)
  have "2 ^ (s + 52) \<le> a" using bit_length_bounds [OF apos] by (simp add: k add.commute)
  then have "2 ^ 52 * 2 ^ s \<le> a" by (simp add: power_add mult.commute)
  then have q52: "2 ^ 52 \<le> q" unfolding q_def
    by (simp add: less_eq_div_iff_mult_less_eq)
  have spos: "0 < s" using False by (simp add: s_def a_def)
  then have "(2::nat) ^ 1 \<le> 2 ^ s" by (intro power_increasing) simp_all
  then have s2: "(2::nat) \<le> 2 ^ s" by simp
  define q' where "q' = (if 2 ^ (s - 1) < a mod 2 ^ s \<or> (a mod 2 ^ s = 2 ^ (s - 1) \<and> odd q) then q + 1 else q)"
  have "q \<le> q'" by (simp add: q'_def)
  with q52 have q52': "2 ^ 52 \<le> q'" by simp
  from q52' s2 have "2 ^ 52 * 2 \<le> q' * 2 ^ s" by (rule mult_le_mono)
  then have "(2::nat) ^ 53 \<le> q' * 2 ^ s" by simp
  then have "int (2 ^ 53) \<le> int (q' * 2 ^ s)" by (rule iffD2 [OF of_nat_le_iff])
  then have big: "(2::int) ^ 53 \<le> int (q' * 2 ^ s)" by simp
  have "float64_round n = sgn n * int (q' * 2 ^ s)"
    using False by (simp add: float64_round_def Let_def a_def [symmetric] s_def [symmetric]
        q_def [symmetric] q'_def)
  moreover have "sgn n = 1" using assms by simp
  ultimately show ?thesis using big by simp
qed

lemma clipExtent_min:
  assumes "0 \<le> origin" "origin < extent" "in_int64 extent"
  shows "clipExtent extent origin = min TileSize (extent - origin)"
proof -
  have sub: "go_sub extent origin = extent - origin"
    using assms by (simp add: go_sub_def wrap64_def in_int64_def)
  have ts: "float64_of_int 128 = 128"
    by (simp add: float64_of_int_def float64_round_exact)
  show ?thesis
  proof (cases "extent - origin < 2 ^ 53")
    case True
    with assms have "float64_of_int (extent - origin) = extent - origin"
      by (simp add: float64_of_int_def float64_round_exact)
    then show ?thesis by (simp add: clipExtent_def sub ts TileSize_def)
  next
    case False
    then have "2 ^ 53 \<le> extent - origin" by simp
    then have "2 ^ 53 \<le> float64_of_int (extent - origin)"
      unfolding float64_of_int_def by (rule float64_round_large)
    with False show ?thesis by (simp add: clipExtent_def sub ts TileSize_def)
  qed
qed

lemma clipExtent_in_canvas:
  assumes "0 \<le> origin" "origin < extent" "in_int64 extent"
  shows "0 < clipExtent extent origin" "clipExtent extent origin \<le> 128"
  using clipExtent_min [OF assms] assms by (simp_all add: TileSize_def)

lemma allocatable_in_canvas:
  assumes "0 \<le> r_X r" "r_X r < p_Width params" "in_int64 (p_Width params)"
    and "0 \<le> r_Y r" "r_Y r < p_Height params" "in_int64 (p_Height params)"
  shows "allocatable params r"
proof -
  note w = clipExtent_in_canvas [OF assms(1-3)]
  note h = clipExtent_in_canvas [OF assms(4-6)]
  have "NewRGBA (clipExtent (p_Width params) (r_X r)) (clipExtent (p_Height params) (r_Y r)) =
      Inr \<lparr> img_MinX = min 0 (clipExtent (p_Width params) (r_X r)),
            img_MinY = min 0 (clipExtent (p_Height params) (r_Y r)),
            img_MaxX = max 0 (clipExtent (p_Width params) (r_X r)),
            img_MaxY = max 0 (clipExtent (p_Height params) (r_Y r)),
            img_Pix = replicate (nat (\<bar>clipExtent (p_Width params) (r_X r)\<bar> *
                                      \<bar>clipExtent (p_Height params) (r_Y r)\<bar>)) (RGBA 0 0 0 0) \<rparr>"
    using w h by (intro NewRGBA_small) simp_all
  then show ?thesis by (simp add: allocatable_def)
qed

section \<open>What a task and a batch return\<close>

lemma allocatable_Inr:
  "allocatable params r \<Longrightarrow>
     \<exists>img0. NewRGBA (clipExtent (p_Width params) (r_X r)) (clipExtent (p_Height params) (r_Y r))
              = Inr img0"
  by (cases "NewRGBA (clipExtent (p_Width params) (r_X r)) (clipExtent (p_Height params) (r_Y r))")
     (auto simp: allocatable_def)

lemma tileTask_miss:
  assumes "TileCache_Get tc (getTileKey L params (r_X r) (r_Y r) (r_LOD r) offset) = None"
    and "allocatable params r"
  shows "\<exists>t. tileTask L params offset tc now r = Inr (t, cacheTile L tc params t offset) \<and>
             generateJuliaTile L now params (r_X r) (r_Y r) (clipExtent (p_Width params) (r_X r))
               (clipExtent (p_Height params) (r_Y r)) (r_LOD r) offset = Inr t \<and>
             t_X t = r_X r \<and> t_Y t = r_Y r \<and>
             t_Width t = clipExtent (p_Width params) (r_X r) \<and>
             t_Height t = clipExtent (p_Height params) (r_Y r) \<and>
             t_LOD t = r_LOD r \<and> t_LastAccessed t = now"
proof -
  obtain img0 where
    "NewRGBA (clipExtent (p_Width params) (r_X r)) (clipExtent (p_Height params) (r_Y r)) = Inr img0"
    using allocatable_Inr [OF assms(2)] by auto
  from generateJuliaTile_Inr [OF this, of L params "r_X r" "r_Y r" offset now "r_LOD r"] assms(1)
  show ?thesis
    by (auto simp: tileTask_def getCachedTile_def Let_def)
qed

lemma tileTask_miss_panic:
  assumes "TileCache_Get tc (getTileKey L params (r_X r) (r_Y r) (r_LOD r) offset) = None"
    and "NewRGBA (clipExtent (p_Width params) (r_X r)) (clipExtent (p_Height params) (r_Y r)) = Inl e"
  shows "tileTask L params offset tc now r = Inl e"
  using assms generateJuliaTile_Inl [OF assms(2), of L now params "r_X r" "r_Y r" "r_LOD r" offset]
  by (simp add: tileTask_def getCachedTile_def Let_def)

lemma tileTask_hit:
  assumes "TileCache_Get tc (getTileKey L params (r_X r) (r_Y r) (r_LOD r) offset) = Some t"
  shows "tileTask L params offset tc now r =
           Inr (t\<lparr> t_LastAccessed := now \<rparr>,
                TileCache_Set tc (getTileKey L params (r_X r) (r_Y r) (r_LOD r) offset)
                  (t\<lparr> t_LastAccessed := now \<rparr>))"
  using assms by (simp add: tileTask_def getCachedTile_def Let_def)






lemma sendTiles_all_written:
  "sendTiles L (\<lambda>k. True) k tiles = (map (tileMessage L) tiles, AwaitingMessage)"
  by (induction tiles arbitrary: k) auto




section \<open>Decoding the list of tiles\<close>

lemma insertLeft_mset: "mset (insertLeft lt x ys) = add_mset x (mset ys)"
  by (induction ys) auto

lemma foldl_insertLeft_mset:
  "mset (foldl (\<lambda>acc x. insertLeft lt x acc) acc xs) = mset acc + mset xs"
  by (induction xs arbitrary: acc) (auto simp: insertLeft_mset)

lemma mset_insertionSort: "mset (insertionSort lt xs) = mset xs"
  by (simp add: insertionSort_def foldl_insertLeft_mset)

lemma length_insertionSort: "length (insertionSort lt xs) = length xs"
  using mset_insertionSort [of lt xs] by (metis size_mset)

lemma sort_Slice_real_lib: "sort_Slice real_lib = insertionSort"
  by (simp add: real_lib_def)


lemma scan_0_0: "Sscanf_d_d ''0,0'' = (Some 0, Some 0)"
  by (simp add: Sscanf_d_d_def scan_int_def is_blank_def is_digit_def digits_value_def in_int64_def)



lemma example_allocatable:
  assumes "0 \<le> r_X r" "r_X r < 300" "0 \<le> r_Y r" "r_Y r < 200"
    and "p_Width p = 300" "p_Height p = 200"
  shows "allocatable p r"
  using assms by (intro allocatable_in_canvas) (simp_all add: in_int64_def)


section \<open>Clamping the level of detail\<close>

lemma insertionSort_single: "insertionSort lt [x] = [x]"
  by (simp add: insertionSort_def)

lemma cacheTile_empty:
  "cacheTile L [] params tile offset =
     [(getTileKey L params (t_X tile) (t_Y tile) (t_LOD tile) offset, tile)]"
  by (simp add: cacheTile_def TileCache_Set_def TileCache_Len_def MaxCacheSize_def Let_def)

text \<open>
  Claim C3. The requests of a batch are built before \<open>params.LOD\<close> is clamped, and
  nothing reads the clamped field afterwards. For a batch decoded with \<open>lod = 0\<close> and
  the one tile \<open>"0,0"\<close>, on an empty cache: the request, the cache key and the message
  written all carry \<open>lod = 0\<close>, not \<open>1\<close>.
\<close>

theorem lod_clamped_after_requests_built:
  "p_LOD (q_Params lod0_request) = 0 \<and>
   p_LOD (validate (q_Params lod0_request)) = 1 \<and>
   requestedTiles_of lod0_request = [\<lparr> r_X = 0, r_Y = 0, r_LOD = 0 \<rparr>] \<and>
   (\<exists>sent tc'. wsHandler_step real_lib (\<lambda>k. True) (\<lambda>k. k) [] (Some lod0_request) =
                  Inr (sent, AwaitingMessage, tc') \<and>
                map m_lod sent = [0] \<and>
                map fst tc' = [getTileKey real_lib (validate (q_Params lod0_request)) 0 0 0 no_offset])"
proof -
  let ?p = "validate (q_Params lod0_request)"
  let ?r = "\<lparr> r_X = 0, r_Y = 0, r_LOD = 0 \<rparr>"
  have rq: "requestedTiles_of lod0_request = [?r]"
    by (simp add: requestedTiles_of_def lod0_request_def scanTile_def scan_0_0 Let_def)
  have miss: "TileCache_Get [] (getTileKey real_lib ?p (r_X ?r) (r_Y ?r) (r_LOD ?r) no_offset) = None"
    by (simp add: TileCache_Get_def)
  have al: "allocatable ?p ?r"
    by (rule example_allocatable) (simp_all add: lod0_request_def validate_def example_params_def)
  obtain t where t: "tileTask real_lib ?p no_offset [] 0 ?r = Inr (t, cacheTile real_lib [] ?p t no_offset)"
    "t_X t = 0" "t_Y t = 0" "t_LOD t = 0"
    using tileTask_miss [OF miss al, of 0] by auto
  have "wsHandler_step real_lib (\<lambda>k. True) (\<lambda>k. k) [] (Some lod0_request) =
          Inr ([tileMessage real_lib t], AwaitingMessage, cacheTile real_lib [] ?p t no_offset)"
    using t(1) rq
    by (simp add: wsHandler_step_def generateJuliaSet_def Let_def sort_Slice_real_lib
        insertionSort_single lod0_request_def)
  moreover have "m_lod (tileMessage real_lib t) = 0"
    using t by (simp add: tileMessage_def)
  moreover have "map fst (cacheTile real_lib [] ?p t no_offset) =
      [getTileKey real_lib ?p 0 0 0 no_offset]"
    using t by (simp add: cacheTile_empty)
  moreover have "p_LOD (q_Params lod0_request) = 0" "p_LOD ?p = 1"
    by (simp_all add: lod0_request_def validate_def)
  ultimately show ?thesis using rq by simp
qed

section \<open>A tile far off the canvas\<close>

text \<open>
  An entry whose first number lies far beyond the canvas asks for a tile of negative
  width; \<open>image.NewRGBA\<close> panics in the task, whether the rest of the entry parses or
  not, and nothing is written.
\<close>

lemma scan_off_canvas: "Sscanf_d_d ''1000000000000300,x'' = (Some 1000000000000300, None)"
  by (simp add: Sscanf_d_d_def scan_int_def is_blank_def is_digit_def digits_value_def in_int64_def)

lemma clipExtent_off_canvas: "clipExtent 300 1000000000000300 = - 1000000000000000"
  by (simp add: clipExtent_def go_sub_def wrap64_def float64_of_int_def float64_round_exact
      TileSize_def)

lemma off_canvas_entry_panics:
  "wsHandler_step real_lib (\<lambda>k. True) (\<lambda>k. k) [] (Some off_canvas_request) = Inl MakeSliceLen"
proof -
  let ?r = "\<lparr> r_X = 1000000000000300, r_Y = 0, r_LOD = 1 \<rparr>"
  have v: "validate example_params = example_params"
    by (simp add: validate_def example_params_def)
  have qf: "q_Params off_canvas_request = example_params"
    "q_Offset off_canvas_request = no_offset"
    by (simp_all add: off_canvas_request_def)
  have rq: "requestedTiles_of off_canvas_request = [?r]"
    by (simp add: requestedTiles_of_def off_canvas_request_def scanTile_def scan_off_canvas
        Let_def example_params_def)
  have w: "clipExtent (p_Width example_params) (r_X ?r) = - 1000000000000000"
    "clipExtent (p_Height example_params) (r_Y ?r) = 128"
    by (simp_all add: clipExtent_off_canvas example_params_def)
       (simp add: clipExtent_def go_sub_def wrap64_def float64_of_int_def float64_round_exact
          TileSize_def)
  have miss: "TileCache_Get [] (getTileKey real_lib example_params (r_X ?r) (r_Y ?r) (r_LOD ?r)
      no_offset) = None"
    by (simp add: TileCache_Get_def)
  have "tileTask real_lib example_params no_offset [] 0 ?r = Inl MakeSliceLen"
    by (rule tileTask_miss_panic [OF miss]) (simp only: w NewRGBA_off_canvas)
  then have run: "runTasks real_lib example_params no_offset (\<lambda>k. k) 0 [] [?r] = Inl MakeSliceLen"
    by simp
  show ?thesis
    by (simp only: wsHandler_step_def generateJuliaSet_def Let_def qf v rq sort_Slice_real_lib
        insertionSort_single run option.case sum.case)
qed

section \<open>Escape-time classification\<close>

lemma orbit_Suc_shift:
  "orbit L c (Suc k) z = orbit L c k (c_add L (c_mul L z z) c)"
  unfolding orbit_def by (simp only: funpow_Suc_right o_apply)

lemma escape_spec:
  "i \<le> fst (escape L c m i z) \<and>
   (i \<le> m \<longrightarrow> fst (escape L c m i z) \<le> m) \<and>
   snd (escape L c m i z) = orbit L c (nat (fst (escape L c m i z) - i)) z \<and>
   (\<forall>k<nat (fst (escape L c m i z) - i). \<not> exceeds L (orbit L c k z)) \<and>
   (fst (escape L c m i z) < m \<longrightarrow> exceeds L (snd (escape L c m i z)))"
proof (induction L c m i z rule: escape.induct)
  case (1 L c m i z)
  show ?case
  proof (cases "i < m")
    case False
    then show ?thesis by (subst (1 2 3 4 5 6 7) escape.simps) (simp add: orbit_def)
  next
    case lt: True
    show ?thesis
    proof (cases "f_gt L (c_abs L z) (f_lit L 2)")
      case True
      with lt have e: "escape L c m i z = (i, z)" by (subst escape.simps) simp
      show ?thesis using True by (simp add: e orbit_def exceeds_def)
    next
      case False
      let ?z' = "c_add L (c_mul L z z) c"
      let ?j = "fst (escape L c m (i + 1) ?z')"
      from lt False have e: "escape L c m i z = escape L c m (i + 1) ?z'"
        by (subst escape.simps) simp
      from "1.IH" [OF lt False]
      have ih: "i + 1 \<le> ?j" "i + 1 \<le> m \<longrightarrow> ?j \<le> m"
        "snd (escape L c m (i + 1) ?z') = orbit L c (nat (?j - (i + 1))) ?z'"
        "\<forall>k<nat (?j - (i + 1)). \<not> exceeds L (orbit L c k ?z')"
        "?j < m \<longrightarrow> exceeds L (snd (escape L c m (i + 1) ?z'))"
        by auto
      have n: "nat (?j - i) = Suc (nat (?j - (i + 1)))" using ih(1) by simp
      have all: "\<forall>k<nat (?j - i). \<not> exceeds L (orbit L c k z)"
      proof (intro allI impI)
        fix k assume k: "k < nat (?j - i)"
        show "\<not> exceeds L (orbit L c k z)"
        proof (cases k)
          case 0
          then show ?thesis using False by (simp add: orbit_def exceeds_def)
        next
          case (Suc k')
          with k n have "k' < nat (?j - (i + 1))" by simp
          with ih(4) have "\<not> exceeds L (orbit L c k' ?z')" by blast
          then show ?thesis by (simp add: Suc orbit_Suc_shift)
        qed
      qed
      show ?thesis
        unfolding e using ih lt all by (simp add: n orbit_Suc_shift)
    qed
  qed
qed


text \<open>
  Over the real numbers the point of the plane for an absolute pixel coordinate is
  \<open>(abs - offset) / zoom - extent / (2 * zoom) + center\<close>.
\<close>

lemma plane_coord_real_lib:
  "plane_coord real_lib n off zoom extent center =
     (of_int n - off) / zoom - of_int extent / (2 * zoom) + center"
  by (simp add: plane_coord_def real_lib_def)

lemma plane_coord_example:
  "plane_coord real_lib n (o_X no_offset) (p_Zoom example_params)
     (p_Width example_params) (c_Real (p_Center example_params)) = of_int n - 150"
  by (simp add: plane_coord_def real_lib_def no_offset_def example_params_def)

lemma go_add_small: "go_add 128 22 = 150" "go_add 0 0 = 0" "go_add 0 100 = 100"
  by (simp_all add: go_add_def wrap64_def)

lemma exceeds_150: "exceeds real_lib (- 150, 0)"
proof -
  have "2 < sqrt (- 150 * - 150 + 0 * 0)" by (rule real_less_rsqrt) simp
  then show ?thesis by (simp add: exceeds_def real_lib_def)
qed

lemma escape_150: "escape real_lib c 100 0 (- 150, 0) = (0, (- 150, 0))"
  using exceeds_150 by (subst escape.simps) (simp add: exceeds_def)

lemma pix_index_less:
  fixes x y w h :: int
  assumes "0 \<le> x" "x < w" "0 \<le> y" "y < h"
  shows "0 \<le> y * w + x" "y * w + x < w * h"
proof -
  show "0 \<le> y * w + x" using assms by simp
  have "y + 1 \<le> h" using assms by simp
  then have "(y + 1) * w \<le> h * w"
    using assms by (intro mult_right_mono) simp_all
  then show "y * w + x < w * h"
    using assms by (simp add: algebra_simps)
qed

lemma pix_index_inj:
  fixes x y x' y' w :: int
  assumes "0 \<le> x" "x < w" "0 \<le> x'" "x' < w" "y * w + x = y' * w + x'"
  shows "x = x' \<and> y = y'"
proof -
  have "y = y'"
  proof (rule ccontr)
    assume "y \<noteq> y'"
    then consider "y < y'" | "y' < y" by linarith
    then show False
    proof cases
      case 1
      then have "y + 1 \<le> y'" by simp
      then have "(y + 1) * w \<le> y' * w" using assms by (intro mult_right_mono) simp_all
      then show False using assms by (simp add: algebra_simps)
    next
      case 2
      then have "y' + 1 \<le> y" by simp
      then have "(y' + 1) * w \<le> y * w" using assms by (intro mult_right_mono) simp_all
      then show False using assms by (simp add: algebra_simps)
    qed
  qed
  with assms show ?thesis by simp
qed

lemma img_Set_extents: "has_extents img w h \<Longrightarrow> has_extents (img_Set img x y c) w h"
  by (simp add: has_extents_def img_Set_def)

lemma RGBAAt_img_Set:
  assumes "has_extents img w h" "0 \<le> x" "x < w" "0 \<le> y" "y < h"
    and "0 \<le> x'" "x' < w" "0 \<le> y'" "y' < h"
  shows "RGBAAt (img_Set img x y c) x' y' = (if x' = x \<and> y' = y then c else RGBAAt img x' y')"
proof -
  note i = pix_index_less [OF assms(2-5)]
  note i' = pix_index_less [OF assms(6-9)]
  have len: "length (img_Pix img) = nat (w * h)" using assms(1) by (simp add: has_extents_def)
  have b: "img_MinX img = 0" "img_MinY img = 0" "img_MaxX img = w" "img_MaxY img = h"
    using assms(1) by (simp_all add: has_extents_def)
  show ?thesis
  proof (cases "x' = x \<and> y' = y")
    case True
    have "nat (y * w + x) < length (img_Pix img)" using i len by simp
    then show ?thesis using True assms(2-5) by (simp add: RGBAAt_def img_Set_def b)
  next
    case False
    have "y * w + x \<noteq> y' * w + x'"
      using pix_index_inj [OF assms(2,3,6,7), of y y'] False by auto
    then have "nat (y * w + x) \<noteq> nat (y' * w + x')" using i(1) i'(1) by simp
    then show ?thesis using False assms(2-9) by (auto simp: RGBAAt_def img_Set_def b)
  qed
qed

lemma rowLoop_pixels:
  assumes "has_extents img w h" "0 \<le> py" "py < h" "0 \<le> px"
  shows "\<exists>img'. rowLoop L params tileX tileY w offset y py px img = Inr img' \<and>
           has_extents img' w h \<and>
           (\<forall>x y'. 0 \<le> x \<and> x < w \<and> 0 \<le> y' \<and> y' < h \<longrightarrow>
              Inr (RGBAAt img' x y') =
                (if y' = py \<and> px \<le> x then juliaPixel L params tileX tileY offset y x py
                 else Inr (RGBAAt img x y')))"
  using assms
proof (induction L params tileX tileY w offset y py px img rule: rowLoop.induct)
  case (1 L params tileX tileY w offset y py px img)
  show ?case
  proof (cases "px < w")
    case False
    then have "rowLoop L params tileX tileY w offset y py px img = Inr img"
      by (subst rowLoop.simps) simp
    with False "1.prems" show ?thesis by auto
  next
    case True
    obtain c where c: "juliaPixel L params tileX tileY offset y px py = Inr c"
      using juliaPixel_Inr [of L params tileX tileY offset y px py] by auto
    have e: "has_extents (img_Set img px py c) w h"
      using "1.prems"(1) by (rule img_Set_extents)
    from "1.IH" [OF True c e "1.prems"(2,3)] "1.prems"(4)
    obtain img' where
      r: "rowLoop L params tileX tileY w offset y py (px + 1) (img_Set img px py c) = Inr img'"
      and x: "has_extents img' w h"
      and p: "\<forall>x y'. 0 \<le> x \<and> x < w \<and> 0 \<le> y' \<and> y' < h \<longrightarrow>
              Inr (RGBAAt img' x y') =
                (if y' = py \<and> px + 1 \<le> x then juliaPixel L params tileX tileY offset y x py
                 else Inr (RGBAAt (img_Set img px py c) x y'))"
      by auto
    have s: "rowLoop L params tileX tileY w offset y py px img = Inr img'"
      using True c r by (subst rowLoop.simps) simp
    have "Inr (RGBAAt img' x y') =
                (if y' = py \<and> px \<le> x then juliaPixel L params tileX tileY offset y x py
                 else Inr (RGBAAt img x y'))"
      if t: "0 \<le> x" "x < w" "0 \<le> y'" "y' < h" for x y'
    proof -
      note a = RGBAAt_img_Set [OF "1.prems"(1) "1.prems"(4) True "1.prems"(2,3) t, of c]
      from p t have "Inr (RGBAAt img' x y') =
                (if y' = py \<and> px + 1 \<le> x then juliaPixel L params tileX tileY offset y x py
                 else Inr (RGBAAt (img_Set img px py c) x y'))" by blast
      then show ?thesis using a c by (auto split: if_splits)
    qed
    with s x show ?thesis by blast
  qed
qed

lemma tileLoop_pixels:
  assumes "has_extents img w h" "0 \<le> py"
  shows "\<exists>img'. tileLoop L params tileX tileY w h offset py img = Inr img' \<and>
           has_extents img' w h \<and>
           (\<forall>x y'. 0 \<le> x \<and> x < w \<and> 0 \<le> y' \<and> y' < h \<longrightarrow>
              Inr (RGBAAt img' x y') =
                (if py \<le> y'
                 then juliaPixel L params tileX tileY offset
                        (plane_coord L (go_add tileY y') (o_Y offset) (p_Zoom params)
                           (p_Height params) (c_Imag (p_Center params))) x y'
                 else Inr (RGBAAt img x y')))"
  using assms
proof (induction L params tileX tileY w h offset py img rule: tileLoop.induct)
  case (1 L params tileX tileY w h offset py img)
  show ?case
  proof (cases "py < h")
    case False
    then have "tileLoop L params tileX tileY w h offset py img = Inr img"
      by (subst tileLoop.simps) simp
    with False "1.prems" show ?thesis by auto
  next
    case True
    define y where "y = plane_coord L (go_add tileY py) (o_Y offset) (p_Zoom params)
        (p_Height params) (c_Imag (p_Center params))"
    from rowLoop_pixels [OF "1.prems"(1,2) True, of 0 L params tileX tileY offset y]
    obtain img1 where
      r: "rowLoop L params tileX tileY w offset y py 0 img = Inr img1"
      and x1: "has_extents img1 w h"
      and p1: "\<forall>x y'. 0 \<le> x \<and> x < w \<and> 0 \<le> y' \<and> y' < h \<longrightarrow>
              Inr (RGBAAt img1 x y') =
                (if y' = py \<and> 0 \<le> x then juliaPixel L params tileX tileY offset y x py
                 else Inr (RGBAAt img x y'))"
      by auto
    have py1: "0 \<le> py + 1" using "1.prems"(2) by simp
    from "1.IH" [OF True y_def r x1 py1]
    obtain img' where
      t: "tileLoop L params tileX tileY w h offset (py + 1) img1 = Inr img'"
      and x: "has_extents img' w h"
      and p: "\<forall>x y'. 0 \<le> x \<and> x < w \<and> 0 \<le> y' \<and> y' < h \<longrightarrow>
              Inr (RGBAAt img' x y') =
                (if py + 1 \<le> y'
                 then juliaPixel L params tileX tileY offset
                        (plane_coord L (go_add tileY y') (o_Y offset) (p_Zoom params)
                           (p_Height params) (c_Imag (p_Center params))) x y'
                 else Inr (RGBAAt img1 x y'))"
      by auto
    have s: "tileLoop L params tileX tileY w h offset py img = Inr img'"
      using True r t by (subst tileLoop.simps) (simp add: Let_def y_def)
    have "Inr (RGBAAt img' x y') =
                (if py \<le> y'
                 then juliaPixel L params tileX tileY offset
                        (plane_coord L (go_add tileY y') (o_Y offset) (p_Zoom params)
                           (p_Height params) (c_Imag (p_Center params))) x y'
                 else Inr (RGBAAt img x y'))"
      if q: "0 \<le> x" "x < w" "0 \<le> y'" "y' < h" for x y'
    proof -
      from p q have a: "Inr (RGBAAt img' x y') =
                (if py + 1 \<le> y'
                 then juliaPixel L params tileX tileY offset
                        (plane_coord L (go_add tileY y') (o_Y offset) (p_Zoom params)
                           (p_Height params) (c_Imag (p_Center params))) x y'
                 else Inr (RGBAAt img1 x y'))" by blast
      from p1 q have b: "Inr (RGBAAt img1 x y') =
                (if y' = py \<and> 0 \<le> x then juliaPixel L params tileX tileY offset y x py
                 else Inr (RGBAAt img x y'))" by blast
      show ?thesis
      proof (cases "py + 1 \<le> y'")
        case True
        with a show ?thesis by simp
      next
        case False
        show ?thesis
        proof (cases "y' = py")
          case True
          with a b q False show ?thesis by (simp add: y_def)
        next
          case ne: False
          with False have "\<not> py \<le> y'" by simp
          with a b ne False show ?thesis by simp
        qed
      qed
    qed
    with s x show ?thesis by blast
  qed
qed


lemma plane_coord_example_y:
  "plane_coord real_lib n (o_Y no_offset) (p_Zoom example_params)
     (p_Height example_params) (c_Imag (p_Center example_params)) = of_int n - 100"
  by (simp add: plane_coord_def real_lib_def no_offset_def example_params_def)

text \<open>
  Claim C5. For the pixel \<open>(px, py)\<close> of a tile, the loop starts at the point \<open>z0\<close>
  of the fractal plane that belongs to the pixel and returns the count \<open>i\<close> and the
  value \<open>z\<close>: \<open>z\<close> is the \<open>i\<close>-th point of the orbit of \<open>z0\<close> under
  \<open>z*z + c\<close>, no earlier point of the orbit exceeds magnitude 2, and if the count stays
  below \<open>maxIterations\<close> then \<open>z\<close> exceeds it. In the image the loops over the
  pixels produce, which is the image the tile is encoded from, the pixel holds the color
  of the coloring algorithm when
  \<open>i < maxIterations\<close> and opaque black otherwise. For \<open>maxIterations \<ge> 0\<close> the
  count reaches \<open>maxIterations\<close> exactly when none of the first \<open>maxIterations\<close>
  points of the orbit exceeds magnitude 2, and that is when the pixel is classified
  interior and stored black. "Exceeds" is the test \<open>cmplx.Abs(z) > 2\<close> of the code.
\<close>

theorem escape_time_classification:
  assumes "NewRGBA tileWidth tileHeight = Inr img0"
    and "in_int64 tileWidth" "in_int64 tileHeight"
    and "0 \<le> px" "px < tileWidth" "0 \<le> py" "py < tileHeight"
  shows
  "let c = (c_Real (p_C params), c_Imag (p_C params));
       m = p_MaxIterations params;
       z0 = (plane_coord L (go_add tileX px) (o_X offset) (p_Zoom params) (p_Width params)
               (c_Real (p_Center params)),
             plane_coord L (go_add tileY py) (o_Y offset) (p_Zoom params) (p_Height params)
               (c_Imag (p_Center params)));
       i = fst (escape L c m 0 z0);
       z = snd (escape L c m 0 z0)
   in 0 \<le> i \<and> z = orbit L c (nat i) z0 \<and>
      (\<forall>k<nat i. \<not> exceeds L (orbit L c k z0)) \<and>
      (i < m \<longrightarrow> exceeds L z) \<and>
      (\<exists>img. tileLoop L params tileX tileY tileWidth tileHeight offset 0 img0 = Inr img \<and>
             generateJuliaTile L now params tileX tileY tileWidth tileHeight lod offset =
               Inr \<lparr> t_X = tileX, t_Y = tileY, t_Width = tileWidth, t_Height = tileHeight,
                     t_LOD = lod, t_Image = fst (png_Encode L img), t_LastAccessed = now \<rparr> \<and>
             Inr (RGBAAt img px py) =
               (if i < m
                then ReturnRGBA L (p_Coloring params) i m z (go_add tileX px) (go_add tileY py)
                else Inr (RGBA 0 0 0 255))) \<and>
      (0 \<le> m \<longrightarrow>
         i \<le> m \<and>
         (i = m \<longleftrightarrow> (\<forall>k<nat m. \<not> exceeds L (orbit L c k z0))) \<and>
         (i = m \<longrightarrow>
            (\<exists>img. tileLoop L params tileX tileY tileWidth tileHeight offset 0 img0 = Inr img \<and>
                   RGBAAt img px py = RGBA 0 0 0 255)) \<and>
         (i \<noteq> m \<longrightarrow>
            (\<exists>img. tileLoop L params tileX tileY tileWidth tileHeight offset 0 img0 = Inr img \<and>
                   Inr (RGBAAt img px py) =
                     ReturnRGBA L (p_Coloring params) i m z (go_add tileX px) (go_add tileY py))))"
proof -
  define c where "c = (c_Real (p_C params), c_Imag (p_C params))"
  define m where "m = p_MaxIterations params"
  define y0 where "y0 = plane_coord L (go_add tileY py) (o_Y offset) (p_Zoom params)
      (p_Height params) (c_Imag (p_Center params))"
  define z0 where "z0 = (plane_coord L (go_add tileX px) (o_X offset) (p_Zoom params)
      (p_Width params) (c_Real (p_Center params)), y0)"
  define i where "i = fst (escape L c m 0 z0)"
  define z where "z = snd (escape L c m 0 z0)"
  from escape_spec [of 0 L c m z0]
  have sp: "0 \<le> i" "0 \<le> m \<longrightarrow> i \<le> m" "z = orbit L c (nat i) z0"
    "\<forall>k<nat i. \<not> exceeds L (orbit L c k z0)" "i < m \<longrightarrow> exceeds L z"
    unfolding i_def z_def by auto
  have jp: "juliaPixel L params tileX tileY offset y0 px py =
        (if i < m then ReturnRGBA L (p_Coloring params) i m z (go_add tileX px) (go_add tileY py)
         else Inr (RGBA 0 0 0 255))"
    by (simp add: juliaPixel_def Let_def case_prod_beta c_def m_def z0_def i_def z_def Black_def)
  have w0: "0 \<le> tileWidth" "0 \<le> tileHeight" using assms(4-7) by simp_all
  have ext: "has_extents img0 tileWidth tileHeight"
    using NewRGBA_shape [OF assms(1) w0(1) assms(2) w0(2) assms(3)]
    by (simp add: has_extents_def)
  have z00: "(0::int) \<le> 0" by simp
  from tileLoop_pixels [OF ext z00, of L params tileX tileY offset]
  obtain img where
    t: "tileLoop L params tileX tileY tileWidth tileHeight offset 0 img0 = Inr img"
    and p: "\<forall>x y'. 0 \<le> x \<and> x < tileWidth \<and> 0 \<le> y' \<and> y' < tileHeight \<longrightarrow>
              Inr (RGBAAt img x y') =
                (if 0 \<le> y'
                 then juliaPixel L params tileX tileY offset
                        (plane_coord L (go_add tileY y') (o_Y offset) (p_Zoom params)
                           (p_Height params) (c_Imag (p_Center params))) x y'
                 else Inr (RGBAAt img0 x y'))"
    by auto
  from p assms(4-7) have "Inr (RGBAAt img px py) = juliaPixel L params tileX tileY offset y0 px py"
    by (simp add: y0_def)
  with jp have col: "Inr (RGBAAt img px py) =
        (if i < m then ReturnRGBA L (p_Coloring params) i m z (go_add tileX px) (go_add tileY py)
         else Inr (RGBA 0 0 0 255))"
    by simp
  have iff: "i = m \<longleftrightarrow> (\<forall>k<nat m. \<not> exceeds L (orbit L c k z0))" if "0 \<le> m"
  proof
    assume "i = m" with sp(4) show "\<forall>k<nat m. \<not> exceeds L (orbit L c k z0)" by simp
  next
    assume a: "\<forall>k<nat m. \<not> exceeds L (orbit L c k z0)"
    show "i = m"
    proof (rule ccontr)
      assume "i \<noteq> m"
      with sp(2) that have lt: "i < m" by simp
      with sp(1) have "nat i < nat m" by simp
      with a have "\<not> exceeds L (orbit L c (nat i) z0)" by blast
      with sp(3,5) lt show False by simp
    qed
  qed
  have black: "\<exists>img. tileLoop L params tileX tileY tileWidth tileHeight offset 0 img0 = Inr img \<and>
                   RGBAAt img px py = RGBA 0 0 0 255" if "i = m"
    using t col that by auto
  have colored: "\<exists>img. tileLoop L params tileX tileY tileWidth tileHeight offset 0 img0 = Inr img \<and>
                   Inr (RGBAAt img px py) =
                     ReturnRGBA L (p_Coloring params) i m z (go_add tileX px) (go_add tileY py)"
    if "0 \<le> m" "i \<noteq> m"
    using t col that sp(2) by auto
  have gen: "generateJuliaTile L now params tileX tileY tileWidth tileHeight lod offset =
               Inr \<lparr> t_X = tileX, t_Y = tileY, t_Width = tileWidth, t_Height = tileHeight,
                     t_LOD = lod, t_Image = fst (png_Encode L img), t_LastAccessed = now \<rparr>"
    using t assms(1) by (simp add: generateJuliaTile_def)
  have both: "\<exists>img. tileLoop L params tileX tileY tileWidth tileHeight offset 0 img0 = Inr img \<and>
             generateJuliaTile L now params tileX tileY tileWidth tileHeight lod offset =
               Inr \<lparr> t_X = tileX, t_Y = tileY, t_Width = tileWidth, t_Height = tileHeight,
                     t_LOD = lod, t_Image = fst (png_Encode L img), t_LastAccessed = now \<rparr> \<and>
             Inr (RGBAAt img px py) =
               (if i < m
                then ReturnRGBA L (p_Coloring params) i m z (go_add tileX px) (go_add tileY py)
                else Inr (RGBA 0 0 0 255))"
    using t gen col by blast
  have "0 \<le> i \<and> z = orbit L c (nat i) z0 \<and>
      (\<forall>k<nat i. \<not> exceeds L (orbit L c k z0)) \<and>
      (i < m \<longrightarrow> exceeds L z) \<and>
      (\<exists>img. tileLoop L params tileX tileY tileWidth tileHeight offset 0 img0 = Inr img \<and>
             generateJuliaTile L now params tileX tileY tileWidth tileHeight lod offset =
               Inr \<lparr> t_X = tileX, t_Y = tileY, t_Width = tileWidth, t_Height = tileHeight,
                     t_LOD = lod, t_Image = fst (png_Encode L img), t_LastAccessed = now \<rparr> \<and>
             Inr (RGBAAt img px py) =
               (if i < m
                then ReturnRGBA L (p_Coloring params) i m z (go_add tileX px) (go_add tileY py)
                else Inr (RGBA 0 0 0 255))) \<and>
      (0 \<le> m \<longrightarrow>
         i \<le> m \<and>
         (i = m \<longleftrightarrow> (\<forall>k<nat m. \<not> exceeds L (orbit L c k z0))) \<and>
         (i = m \<longrightarrow>
            (\<exists>img. tileLoop L params tileX tileY tileWidth tileHeight offset 0 img0 = Inr img \<and>
                   RGBAAt img px py = RGBA 0 0 0 255)) \<and>
         (i \<noteq> m \<longrightarrow>
            (\<exists>img. tileLoop L params tileX tileY tileWidth tileHeight offset 0 img0 = Inr img \<and>
                   Inr (RGBAAt img px py) =
                     ReturnRGBA L (p_Coloring params) i m z (go_add tileX px) (go_add tileY py))))"
    using sp both iff black colored by blast
  then show ?thesis
    unfolding Let_def c_def m_def z0_def y0_def i_def z_def .
qed

lemma orbit_zero: "orbit real_lib (0, 0) k (0, 0) = (0, 0)"
  by (induction k) (simp_all add: orbit_def c_add_def c_mul_def real_lib_def)

lemma not_exceeds_zero: "\<not> exceeds real_lib (0, 0)"
  by (simp add: exceeds_def real_lib_def)

theorem escape_time_classification_witness:
  "0 \<le> p_MaxIterations example_params \<and>
   in_int64 128 \<and> (0::int) \<le> 22 \<and> (22::int) < 128 \<and> (0::int) \<le> 100 \<and> (100::int) < 128 \<and>
   (fst (escape real_lib (- 8 / 10, 156 / 1000) 100 0 (0, 0)) = 100 \<longleftrightarrow>
      (\<forall>k<100. \<not> exceeds real_lib (orbit real_lib (- 8 / 10, 156 / 1000) k (0, 0)))) \<and>
   fst (escape real_lib (0, 0) 3 0 (0, 0)) = 3 \<and>
   (\<exists>img0 img. NewRGBA 128 128 = Inr img0 \<and>
      tileLoop real_lib
        (example_params\<lparr> p_C := \<lparr> c_Real = 0, c_Imag = 0 \<rparr>, p_MaxIterations := 3 \<rparr>)
        128 0 128 128 no_offset 0 img0 = Inr img \<and>
      RGBAAt img 22 100 = RGBA 0 0 0 255) \<and>
   fst (escape real_lib (- 8 / 10, 156 / 1000) 100 0 (- 150, 0)) < 100 \<and>
   exceeds real_lib (snd (escape real_lib (- 8 / 10, 156 / 1000) 100 0 (- 150, 0))) \<and>
   (\<exists>img0 img. NewRGBA 128 128 = Inr img0 \<and>
      tileLoop real_lib example_params 0 0 128 128 no_offset 0 img0 = Inr img \<and>
      Inr (RGBAAt img 0 100) = ReturnRGBA real_lib 1 0 100 (- 150, 0) 0 100)"
proof -
  have m: "p_MaxIterations example_params = 100" "p_Coloring example_params = 1"
    "(c_Real (p_C example_params), c_Imag (p_C example_params)) = (- 8 / 10, 156 / 1000)"
    by (simp_all add: example_params_def)
  have a: "plane_coord real_lib (go_add 128 22) (o_X no_offset) (p_Zoom example_params)
     (p_Width example_params) (c_Real (p_Center example_params)) = 0"
    "plane_coord real_lib (go_add 0 100) (o_Y no_offset) (p_Zoom example_params)
     (p_Height example_params) (c_Imag (p_Center example_params)) = 0"
    by (simp_all add: plane_coord_example plane_coord_example_y go_add_small)
  have b: "plane_coord real_lib (go_add 0 0) (o_X no_offset) (p_Zoom example_params)
     (p_Width example_params) (c_Real (p_Center example_params)) = - 150"
    by (simp add: plane_coord_example go_add_small)
  have "\<not> isl (NewRGBA 128 128)" by (simp add: NewRGBA_small)
  then obtain img0 where n: "NewRGBA 128 128 = Inr img0"
    by (cases "NewRGBA 128 128") auto
  have i64: "in_int64 128" by (simp add: in_int64_def)
  have r: "(0::int) \<le> 22" "(22::int) < 128" "(0::int) \<le> 100" "(100::int) < 128" by simp_all
  have r0: "(0::int) \<le> 0" "(0::int) < 128" by simp_all
  have h1: "(0::int) \<le> 100" by simp
  have h2: "nat 100 = 100" by simp
  note T = escape_time_classification [OF n i64 i64 r, where L = real_lib
      and params = example_params and tileX = 128 and offset = no_offset and tileY = 0,
      unfolded Let_def m a]
  note T6 = mp [OF T [THEN conjunct2, THEN conjunct2, THEN conjunct2, THEN conjunct2,
        THEN conjunct2] h1]
  note A = T6 [THEN conjunct2, THEN conjunct1, unfolded h2]
  let ?q = "example_params\<lparr> p_C := \<lparr> c_Real = 0, c_Imag = 0 \<rparr>, p_MaxIterations := 3 \<rparr>"
  have mq: "p_MaxIterations ?q = 3"
    "(c_Real (p_C ?q), c_Imag (p_C ?q)) = (0, 0)"
    "p_Zoom ?q = p_Zoom example_params" "p_Width ?q = p_Width example_params"
    "p_Height ?q = p_Height example_params"
    "p_Center ?q = p_Center example_params"
    by simp_all
  have g1: "(0::int) \<le> 3" by simp
  have g2: "nat 3 = 3" by simp
  note U = escape_time_classification [OF n i64 i64 r, where L = real_lib and params = ?q
      and tileX = 128 and offset = no_offset and tileY = 0,
      unfolded Let_def mq a]
  note U6 = mp [OF U [THEN conjunct2, THEN conjunct2, THEN conjunct2, THEN conjunct2,
        THEN conjunct2] g1]
  have "\<forall>k<3. \<not> exceeds real_lib (orbit real_lib (0, 0) k (0, 0))"
    by (simp add: orbit_zero not_exceeds_zero)
  with U6 [THEN conjunct2, THEN conjunct1, unfolded g2]
  have I1: "fst (escape real_lib (0, 0) 3 0 (0, 0)) = 3" by (rule iffD2)
  from U6 [THEN conjunct2, THEN conjunct2, THEN conjunct1] I1
  have "\<exists>img. tileLoop real_lib ?q 128 0 128 128 no_offset 0 img0 = Inr img \<and>
            RGBAAt img 22 100 = RGBA 0 0 0 255"
    by (rule mp)
  with n have I2: "\<exists>img0 img. NewRGBA 128 128 = Inr img0 \<and>
      tileLoop real_lib ?q 128 0 128 128 no_offset 0 img0 = Inr img \<and>
      RGBAAt img 22 100 = RGBA 0 0 0 255"
    by blast
  note V = escape_time_classification [OF n i64 i64 r0 r(3,4), where L = real_lib
      and params = example_params and tileX = 0 and offset = no_offset and tileY = 0,
      unfolded Let_def m a b]
  from V [THEN conjunct2, THEN conjunct2, THEN conjunct2, THEN conjunct2, THEN conjunct1]
  have "\<exists>img. tileLoop real_lib example_params 0 0 128 128 no_offset 0 img0 = Inr img \<and>
      Inr (RGBAAt img 0 100) = ReturnRGBA real_lib 1 0 100 (- 150, 0) 0 100"
    by (auto simp: escape_150 go_add_small)
  with n have B: "\<exists>img0 img. NewRGBA 128 128 = Inr img0 \<and>
      tileLoop real_lib example_params 0 0 128 128 no_offset 0 img0 = Inr img \<and>
      Inr (RGBAAt img 0 100) = ReturnRGBA real_lib 1 0 100 (- 150, 0) 0 100"
    by blast
  show ?thesis using A B I1 I2 exceeds_150 i64 by (simp add: m escape_150)
qed

section \<open>Cache bound\<close>

lemma getTileKey_nonempty: "getTileKey L params x y lod offset \<noteq> []"
  by (simp add: getTileKey_def)

lemma update_fresh: "k \<notin> fst ` set al \<Longrightarrow> AList.update k v al = al @ [(k, v)]"
  by (induction al) auto

lemma scanOldest_increasing:
  assumes "sorted_wrt (<) (map (\<lambda>a. t_LastAccessed (snd a)) (e # es))" "fst e \<noteq> []"
  shows "fold scanStep es (fst e, t_LastAccessed (snd e)) = (fst e, t_LastAccessed (snd e))"
  using assms
proof (induction es)
  case Nil
  show ?case by simp
next
  case (Cons x xs)
  from Cons.prems have "t_LastAccessed (snd e) < t_LastAccessed (snd x)" by simp
  then have "scanStep x (fst e, t_LastAccessed (snd e)) = (fst e, t_LastAccessed (snd e))"
    using Cons.prems(2) by (simp add: scanStep_def)
  moreover have "sorted_wrt (<) (map (\<lambda>a. t_LastAccessed (snd a)) (e # xs))"
    using Cons.prems(1) by simp
  ultimately show ?case using Cons.IH Cons.prems(2) by simp
qed

lemma scanOldest_head:
  assumes "sorted_wrt (<) (map (\<lambda>a. t_LastAccessed (snd a)) (e # es))" "fst e \<noteq> []"
  shows "fst (scanOldest (e # es)) = fst e"
proof -
  have "scanStep e ([], 0) = (fst e, t_LastAccessed (snd e))" by (simp add: scanStep_def)
  then show ?thesis
    using scanOldest_increasing [OF assms] by (simp add: scanOldest_def)
qed

lemma delete_head: "k \<notin> fst ` set es \<Longrightarrow> AList.delete k ((k, v) # es) = es"
  by (induction es) (auto simp: AList.delete_eq)


lemma itemKey_nonempty: "itemKey L item \<noteq> []"
  by (cases item) (simp add: itemKey_def getTileKey_nonempty)

lemma fold_scanStep:
  assumes "\<forall>e\<in>set es. fst e \<noteq> []" "k0 \<noteq> []"
  shows "\<exists>k t. fold scanStep es (k0, t0) = (k, t) \<and> k \<noteq> [] \<and> t \<le> t0 \<and>
           (\<forall>e\<in>set es. t \<le> t_LastAccessed (snd e)) \<and>
           ((k, t) = (k0, t0) \<or> (\<exists>e\<in>set es. k = fst e \<and> t = t_LastAccessed (snd e)))"
  using assms
proof (induction es arbitrary: k0 t0)
  case Nil
  then show ?case by simp
next
  case (Cons x xs)
  show ?case
  proof (cases "t_LastAccessed (snd x) < t0")
    case True
    then have s: "scanStep x (k0, t0) = (fst x, t_LastAccessed (snd x))"
      by (simp add: scanStep_def)
    from Cons.IH [of "fst x" "t_LastAccessed (snd x)"] Cons.prems
    obtain k t where "fold scanStep xs (fst x, t_LastAccessed (snd x)) = (k, t)" "k \<noteq> []"
      "t \<le> t_LastAccessed (snd x)" "\<forall>e\<in>set xs. t \<le> t_LastAccessed (snd e)"
      "(k, t) = (fst x, t_LastAccessed (snd x)) \<or> (\<exists>e\<in>set xs. k = fst e \<and> t = t_LastAccessed (snd e))"
      by auto
    with True s show ?thesis by auto
  next
    case False
    then have s: "scanStep x (k0, t0) = (k0, t0)"
      using Cons.prems(2) by (simp add: scanStep_def)
    from Cons.IH [of k0 t0] Cons.prems
    obtain k t where "fold scanStep xs (k0, t0) = (k, t)" "k \<noteq> []"
      "t \<le> t0" "\<forall>e\<in>set xs. t \<le> t_LastAccessed (snd e)"
      "(k, t) = (k0, t0) \<or> (\<exists>e\<in>set xs. k = fst e \<and> t = t_LastAccessed (snd e))"
      by auto
    with False s show ?thesis by auto
  qed
qed

lemma scanOldest_minimal:
  assumes "es \<noteq> []" "\<forall>e\<in>set es. fst e \<noteq> []"
  shows "\<exists>e\<in>set es. scanOldest es = (fst e, t_LastAccessed (snd e)) \<and>
           (\<forall>e'\<in>set es. t_LastAccessed (snd e) \<le> t_LastAccessed (snd e'))"
proof -
  obtain x xs where es: "es = x # xs" using assms(1) by (cases es) auto
  have s: "scanStep x ([], 0) = (fst x, t_LastAccessed (snd x))" by (simp add: scanStep_def)
  from fold_scanStep [of xs "fst x" "t_LastAccessed (snd x)"] assms(2) es
  obtain k t where "fold scanStep xs (fst x, t_LastAccessed (snd x)) = (k, t)"
    "t \<le> t_LastAccessed (snd x)" "\<forall>e\<in>set xs. t \<le> t_LastAccessed (snd e)"
    "(k, t) = (fst x, t_LastAccessed (snd x)) \<or> (\<exists>e\<in>set xs. k = fst e \<and> t = t_LastAccessed (snd e))"
    by auto
  then show ?thesis unfolding es scanOldest_def using s by auto
qed

lemma scanOldest_any_order:
  assumes "mset es' = mset es" "distinct (map (\<lambda>a. t_LastAccessed (snd a)) es)"
    "\<forall>e\<in>set es. fst e \<noteq> []" "es \<noteq> []"
  shows "fst (scanOldest es') = fst (scanOldest es)"
proof -
  have st: "set es' = set es" using assms(1) by (metis set_mset_mset)
  have ne: "es' \<noteq> []" using assms(1,4) by auto
  obtain a where a: "a \<in> set es" "scanOldest es = (fst a, t_LastAccessed (snd a))"
    "\<forall>e'\<in>set es. t_LastAccessed (snd a) \<le> t_LastAccessed (snd e')"
    using scanOldest_minimal [OF assms(4,3)] by auto
  obtain b where b: "b \<in> set es" "scanOldest es' = (fst b, t_LastAccessed (snd b))"
    "\<forall>e'\<in>set es. t_LastAccessed (snd b) \<le> t_LastAccessed (snd e')"
    using scanOldest_minimal [OF ne] assms(3) st by auto
  have "t_LastAccessed (snd a) = t_LastAccessed (snd b)"
    using a b by (simp add: order_antisym)
  then have "a = b"
    using assms(2) a(1) b(1) by (auto simp: distinct_map inj_on_def)
  then show ?thesis using a b by simp
qed

lemma cacheTile_item:
  "cacheTile L tc (fst item) (fst (snd item)) (snd (snd item)) =
     (let tc1 = AList.update (itemKey L item) (fst (snd item)) tc
      in if length tc1 > MaxCacheSize
         then AList.delete (fst (scanOldest (map_range L tc1))) tc1 else tc1)"
  by (cases item)
     (simp add: cacheTile_def itemKey_def TileCache_Set_def TileCache_Len_def
       TileCache_Delete_def Let_def)

lemma cacheTiles_snoc:
  "cacheTiles L tc (xs @ [x]) =
     cacheTile L (cacheTiles L tc xs) (fst x) (fst (snd x)) (snd (snd x))"
  by (cases x) (simp add: cacheTiles_def)

lemma cacheTiles_window:
  assumes "distinct (map (itemKey L) items)"
    and "sorted_wrt (<) (map (\<lambda>it. t_LastAccessed (fst (snd it))) items)"
    and "\<forall>entries. mset (map_range L entries) = mset entries"
  shows "cacheTiles L [] items = drop (length items - MaxCacheSize) (map (itemEntry L) items)"
  using assms
proof (induction items rule: rev_induct)
  case Nil
  show ?case by (simp add: cacheTiles_def)
next
  case (snoc x xs)
  let ?M = MaxCacheSize
  let ?W = "drop (length xs - ?M) (map (itemEntry L) xs)"
  let ?ys = "map (itemEntry L) (xs @ [x])"
  let ?V = "drop (length xs - ?M) ?ys"
  have dk: "distinct (map fst ?ys)"
    using snoc.prems(1) by (simp add: itemEntry_def comp_def)
  have st: "sorted_wrt (<) (map (\<lambda>a. t_LastAccessed (snd a)) ?ys)"
    using snoc.prems(2) by (simp add: itemEntry_def comp_def)
  have ih: "cacheTiles L [] xs = ?W"
    using snoc.IH snoc.prems by (simp add: sorted_wrt_append)
  have V: "?V = ?W @ [itemEntry L x]" by simp
  have dV: "distinct (map fst ?V)"
    using dk by (metis distinct_drop drop_map)
  have sV: "sorted_wrt (<) (map (\<lambda>a. t_LastAccessed (snd a)) ?V)"
    using st by (metis sorted_wrt_drop drop_map)
  have fresh: "itemKey L x \<notin> fst ` set ?W"
    using dV unfolding V by (auto simp: itemEntry_def)
  have upd: "AList.update (itemKey L x) (fst (snd x)) ?W = ?V"
    unfolding V using fresh by (simp add: update_fresh itemEntry_def)
  have lenV: "length ?V = min (length xs) ?M + 1" by auto
  show ?case
  proof (cases "length xs < ?M")
    case True
    then have "\<not> length ?V > ?M" using lenV by simp
    then have "cacheTiles L [] (xs @ [x]) = ?V"
      by (simp only: cacheTiles_snoc ih cacheTile_item upd Let_def if_False)
    with True show ?thesis by simp
  next
    case False
    then have big: "length ?V > ?M" using lenV by simp
    then obtain w ws where w: "?V = w # ws" by (cases ?V) auto
    have "w \<in> set ?ys" using w by (metis in_set_dropD list.set_intros(1))
    then have ne: "fst w \<noteq> []" by (auto simp: itemEntry_def itemKey_nonempty)
    have hd: "fst (scanOldest (w # ws)) = fst w"
      using sV ne unfolding w by (rule scanOldest_head)
    have "distinct (map (\<lambda>a. t_LastAccessed (snd a)) ?V)"
      using sV by (simp only: strict_sorted_iff)
    moreover have "\<forall>e\<in>set ?V. fst e \<noteq> []"
      using itemKey_nonempty [of L] by (auto simp: itemEntry_def dest!: in_set_dropD) metis+
    moreover have "?V \<noteq> []" using w by simp
    moreover have "mset (map_range L ?V) = mset ?V" using snoc.prems(3) by blast
    ultimately have "fst (scanOldest (map_range L ?V)) = fst (scanOldest ?V)"
      by (intro scanOldest_any_order)
    then have sc: "fst (scanOldest (map_range L ?V)) = fst w"
      using hd by (simp only: w)
    have "fst w \<notin> fst ` set ws" using dV unfolding w by auto
    then have dw: "AList.delete (fst w) (w # ws) = ws"
      using delete_head [of "fst w" ws "snd w"] by simp
    have del: "AList.delete (fst (scanOldest (map_range L ?V))) ?V = ws"
      by (simp only: sc) (simp only: w dw)
    have "cacheTiles L [] (xs @ [x]) = ws"
      using big by (simp only: cacheTiles_snoc ih cacheTile_item upd Let_def if_True del)
    moreover have "ws = drop (Suc (length xs - ?M)) ?ys"
      using w by (metis drop_Suc tl_drop list.sel(3))
    moreover have "Suc (length xs - ?M) = length (xs @ [x]) - ?M"
      using False by simp
    ultimately show ?thesis by simp
  qed
qed


lemma getTileKey_x_inj:
  "getTileKey L params x y lod offset = getTileKey L params x' y lod offset \<Longrightarrow> x = x'"
  by (simp add: getTileKey_def fmt_d_inj)

lemma example_items_keys: "distinct (map (itemKey real_lib) example_items)"
proof -
  have "map (itemKey real_lib) example_items =
          map (\<lambda>i. getTileKey real_lib example_params (int i) 0 1 no_offset) [0..<1001]"
    by (simp add: example_items_def itemKey_def example_tile_def comp_def)
  moreover have "inj_on (\<lambda>i. getTileKey real_lib example_params (int i) 0 1 no_offset) (set [0..<1001])"
    by (rule inj_onI) (auto dest: getTileKey_x_inj)
  ultimately show ?thesis by (simp only: distinct_map distinct_upt simp_thms)
qed

lemma example_items_stamps:
  "sorted_wrt (<) (map (\<lambda>it. t_LastAccessed (fst (snd it))) example_items)"
proof -
  have "map (\<lambda>it. t_LastAccessed (fst (snd it))) example_items = [0..<1001]"
    by (simp add: example_items_def example_tile_def comp_def)
  then show ?thesis by (simp only: sorted_wrt_upt)
qed

text \<open>
  Claim C2. Starting from an empty cache, \<open>MaxCacheSize + k\<close> calls of \<open>cacheTile\<close>
  (\<open>k > 0\<close>) with distinct keys and strictly increasing \<open>LastAccessed\<close> leave at most
  \<open>MaxCacheSize\<close> entries after every call and exactly \<open>MaxCacheSize\<close> after the last:
  the entries of the last \<open>MaxCacheSize\<close> calls, each of them accessed later than every
  entry that is gone.
\<close>

theorem cache_bound:
  assumes "distinct (map (itemKey L) items)"
    and "sorted_wrt (<) (map (\<lambda>it. t_LastAccessed (fst (snd it))) items)"
    and "\<forall>entries. mset (map_range L entries) = mset entries"
    and "length items = MaxCacheSize + k" and "0 < k"
  shows "(\<forall>n\<le>length items. length (cacheTiles L [] (take n items)) \<le> MaxCacheSize) \<and>
         length (cacheTiles L [] items) = MaxCacheSize \<and>
         cacheTiles L [] items = drop k (map (itemEntry L) items) \<and>
         (\<forall>i<length items. itemEntry L (items ! i) \<in> set (cacheTiles L [] items) \<longleftrightarrow> k \<le> i) \<and>
         (\<forall>i<length items. \<forall>j<length items.
            itemEntry L (items ! i) \<notin> set (cacheTiles L [] items) \<longrightarrow>
            itemEntry L (items ! j) \<in> set (cacheTiles L [] items) \<longrightarrow>
            t_LastAccessed (fst (snd (items ! i))) < t_LastAccessed (fst (snd (items ! j))))"
proof -
  let ?es = "map (itemEntry L) items"
  have all: "cacheTiles L [] items = drop k ?es"
    using cacheTiles_window [OF assms(1,2,3)] assms(4) by simp
  have pre: "length (cacheTiles L [] (take n items)) \<le> MaxCacheSize" if "n \<le> length items" for n
  proof -
    have "distinct (map (itemKey L) (take n items))"
      using assms(1) by (metis distinct_take take_map)
    moreover have "sorted_wrt (<) (map (\<lambda>it. t_LastAccessed (fst (snd it))) (take n items))"
      using assms(2) by (metis sorted_wrt_take take_map)
    ultimately have "cacheTiles L [] (take n items) =
        drop (length (take n items) - MaxCacheSize) (map (itemEntry L) (take n items))"
      using assms(3) by (rule cacheTiles_window)
    then show ?thesis by simp
  qed
  have "map fst ?es = map (itemKey L) items" by (simp add: itemEntry_def)
  then have "distinct (map fst ?es)" using assms(1) by (simp only:)
  then have des: "distinct ?es" by (rule distinct_map [THEN iffD1, THEN conjunct1])
  have mem: "itemEntry L (items ! i) \<in> set (cacheTiles L [] items) \<longleftrightarrow> k \<le> i"
    if "i < length items" for i
  proof
    assume "itemEntry L (items ! i) \<in> set (cacheTiles L [] items)"
    then have "?es ! i \<in> set (drop k ?es)" using that by (simp add: all)
    then obtain j where j: "j < length (drop k ?es)" "drop k ?es ! j = ?es ! i"
      by (auto simp: in_set_conv_nth)
    then have eq: "?es ! (k + j) = ?es ! i" by simp
    have lt: "k + j < length ?es" "i < length ?es" using j(1) that by simp_all
    have "(?es ! (k + j) = ?es ! i) = (k + j = i)"
      using des lt by (rule nth_eq_iff_index_eq)
    with eq have "k + j = i" by (simp only:)
    then show "k \<le> i" by simp
  next
    assume ki: "k \<le> i"
    then have "drop k ?es ! (i - k) = ?es ! i" using that by simp
    moreover have "i - k < length (drop k ?es)" using that ki by simp
    ultimately have "?es ! i \<in> set (drop k ?es)" by (metis nth_mem)
    then show "itemEntry L (items ! i) \<in> set (cacheTiles L [] items)"
      using that by (simp add: all)
  qed
  have rec: "t_LastAccessed (fst (snd (items ! i))) < t_LastAccessed (fst (snd (items ! j)))"
    if "i < length items" "j < length items"
      "itemEntry L (items ! i) \<notin> set (cacheTiles L [] items)"
      "itemEntry L (items ! j) \<in> set (cacheTiles L [] items)" for i j
  proof -
    from that mem have "i < k" "k \<le> j" by auto
    then have "i < j" by simp
    with assms(2) that(2) show ?thesis
      by (simp add: sorted_wrt_iff_nth_less)
  qed
  show ?thesis
    using pre all mem rec assms(4) by auto
qed


theorem cache_bound_witness:
  "distinct (map (itemKey real_lib) example_items) \<and>
   sorted_wrt (<) (map (\<lambda>it. t_LastAccessed (fst (snd it))) example_items) \<and>
   (\<forall>entries. mset (map_range real_lib entries) = mset entries) \<and>
   length example_items = MaxCacheSize + 1 \<and> (0::nat) < 1 \<and>
   length (cacheTiles real_lib [] (take 1000 example_items)) \<le> MaxCacheSize \<and>
   length (cacheTiles real_lib [] example_items) = MaxCacheSize \<and>
   cacheTiles real_lib [] example_items = drop 1 (map (itemEntry real_lib) example_items) \<and>
   itemEntry real_lib (example_items ! 0) \<notin> set (cacheTiles real_lib [] example_items) \<and>
   itemEntry real_lib (example_items ! 1000) \<in> set (cacheTiles real_lib [] example_items)"
proof -
  have l: "length example_items = MaxCacheSize + 1"
    by (simp add: example_items_def MaxCacheSize_def)
  have k: "(0::nat) < 1" by simp
  have r: "\<forall>entries. mset (map_range real_lib entries) = mset entries"
    by (simp add: real_lib_def)
  note T = cache_bound [OF example_items_keys example_items_stamps r l k]
  have i: "0 < length example_items" "1000 < length example_items"
    by (simp_all add: example_items_def)
  from T i have
    "itemEntry real_lib (example_items ! 0) \<notin> set (cacheTiles real_lib [] example_items)"
    "itemEntry real_lib (example_items ! 1000) \<in> set (cacheTiles real_lib [] example_items)"
    by (metis not_one_le_zero, metis one_le_numeral)
  moreover from T i have
    "length (cacheTiles real_lib [] (take 1000 example_items)) \<le> MaxCacheSize"
    by (metis less_imp_le_nat)
  ultimately show ?thesis
    using T example_items_keys example_items_stamps r l k by blast
qed

section \<open>Dispatch order\<close>

lemma less_req_asym: "less_req params a b \<Longrightarrow> \<not> less_req params b a"
  by (auto simp: less_req_def split: if_splits)

lemma less_req_negtrans:
  "\<not> less_req params a b \<Longrightarrow> \<not> less_req params b c \<Longrightarrow> \<not> less_req params a c"
  by (auto simp: less_req_def split: if_splits)

lemma set_insertLeft: "set (insertLeft lt x ys) = insert x (set ys)"
  by (induction ys) auto

lemma insertLeft_sorted:
  assumes asym: "\<And>a b. lt a b \<Longrightarrow> \<not> lt b a"
    and nt: "\<And>a b c. \<not> lt a b \<Longrightarrow> \<not> lt b c \<Longrightarrow> \<not> lt a c"
  shows "sorted_wrt (\<lambda>a b. \<not> lt a b) ys \<Longrightarrow> sorted_wrt (\<lambda>a b. \<not> lt a b) (insertLeft lt x ys)"
proof (induction ys)
  case Nil
  show ?case by simp
next
  case (Cons y ys)
  show ?case
  proof (cases "lt x y")
    case True
    then have "\<not> lt y x" by (rule asym)
    with Cons True show ?thesis by (auto simp: set_insertLeft)
  next
    case False
    have "\<not> lt x b" if "b \<in> set ys" for b
    proof -
      from Cons.prems that have "\<not> lt y b" by simp
      with False show ?thesis by (rule nt)
    qed
    with Cons.prems False show ?thesis by auto
  qed
qed

lemma foldl_insertLeft_sorted:
  assumes asym: "\<And>a b. lt a b \<Longrightarrow> \<not> lt b a"
    and nt: "\<And>a b c. \<not> lt a b \<Longrightarrow> \<not> lt b c \<Longrightarrow> \<not> lt a c"
  shows "sorted_wrt (\<lambda>a b. \<not> lt a b) acc \<Longrightarrow>
         sorted_wrt (\<lambda>a b. \<not> lt a b) (foldl (\<lambda>acc x. insertLeft lt x acc) acc xs)"
proof (induction xs arbitrary: acc)
  case Nil
  then show ?case by simp
next
  case (Cons x xs)
  from insertLeft_sorted [of lt, OF asym nt Cons.prems]
  have "sorted_wrt (\<lambda>a b. \<not> lt a b) (insertLeft lt x acc)" .
  from Cons.IH [OF this] show ?case by simp
qed

lemma insertionSort_sorts_by:
  assumes asym: "\<And>a b. lt a b \<Longrightarrow> \<not> lt b a"
    and nt: "\<And>a b c. \<not> lt a b \<Longrightarrow> \<not> lt b c \<Longrightarrow> \<not> lt a c"
  shows "sorts_by lt xs (insertionSort lt xs)"
proof -
  have "sorted_wrt (\<lambda>a b. \<not> lt a b) (foldl (\<lambda>acc x. insertLeft lt x acc) [] xs)"
    by (rule foldl_insertLeft_sorted [of lt, OF asym nt]) simp_all
  then have "sorted_wrt (\<lambda>a b. \<not> lt b a) (insertionSort lt xs)"
    by (simp add: insertionSort_def sorted_wrt_rev)
  then show ?thesis by (simp add: sorts_by_def mset_insertionSort)
qed

lemma real_lib_sorts_requests:
  "sorts_by (less_req params) requests (sort_Slice real_lib (less_req params) requests)"
  unfolding sort_Slice_real_lib
  by (rule insertionSort_sorts_by) (auto dest: less_req_asym less_req_negtrans)


lemma wrap64_id: "in_int64 n \<Longrightarrow> wrap64 n = n"
  by (simp add: wrap64_def in_int64_def)

lemma go_quot_2: "in_int64 w \<Longrightarrow> go_quot w 2 = sgn w * (\<bar>w\<bar> div 2)"
proof -
  assume w: "in_int64 w"
  have "in_int64 (sgn w * (\<bar>w\<bar> div 2))"
    using w by (auto simp: in_int64_def sgn_if)
  then show ?thesis by (simp add: go_quot_def wrap64_id)
qed

lemma square_lt_2_52:
  fixes d :: int assumes "\<bar>d\<bar> < 2 ^ 26" shows "0 \<le> d * d" "d * d < 2 ^ 52"
proof -
  show "0 \<le> d * d" by simp
  have "\<bar>d\<bar> * \<bar>d\<bar> < 2 ^ 26 * 2 ^ 26"
    using assms by (intro mult_strict_mono) simp_all
  then show "d * d < 2 ^ 52" by (simp add: abs_mult_self_eq)
qed

lemma pow2_exact: "\<bar>d\<bar> < 2 ^ 26 \<Longrightarrow> pow2 d = d * d"
  using square_lt_2_52 [of d] by (simp add: pow2_def float64_round_exact)

lemma dist_exact:
  assumes "in_int64 (p_Width params)" "in_int64 (p_Height params)" "near_center params r"
  shows "dist params r = sq_distance params r"
proof -
  define dx where "dx = r_X r - sgn (p_Width params) * (\<bar>p_Width params\<bar> div 2)"
  define dy where "dy = r_Y r - sgn (p_Height params) * (\<bar>p_Height params\<bar> div 2)"
  have b: "\<bar>dx\<bar> < 2 ^ 26" "\<bar>dy\<bar> < 2 ^ 26"
    using assms(3) by (simp_all add: near_center_def dx_def dy_def)
  then have i: "in_int64 dx" "in_int64 dy" by (auto simp: in_int64_def)
  have sx: "go_sub (r_X r) (go_quot (p_Width params) 2) = dx"
    using i(1) by (simp add: go_sub_def go_quot_2 assms(1) dx_def wrap64_id)
  have sy: "go_sub (r_Y r) (go_quot (p_Height params) 2) = dy"
    using i(2) by (simp add: go_sub_def go_quot_2 assms(2) dy_def wrap64_id)
  have fx: "float64_of_int dx = dx" "float64_of_int dy = dy"
    using b by (simp_all add: float64_of_int_def float64_round_exact)
  have "\<bar>dx * dx + dy * dy\<bar> < 2 ^ 53"
    using square_lt_2_52 [OF b(1)] square_lt_2_52 [OF b(2)] by simp
  then have "float64_round (dx * dx + dy * dy) = dx * dx + dy * dy"
    by (rule float64_round_exact)
  moreover note pow2_exact [OF b(1)] pow2_exact [OF b(2)]
  ultimately have "dist params r = dx * dx + dy * dy"
    by (simp add: dist_def Let_def sx sy fx)
  then show ?thesis
    by (simp add: sq_distance_def dx_def dy_def power2_eq_square)
qed

lemma dispatch_sorted:
  assumes "sorts_by (less_req params) requests (sort_Slice L (less_req params) requests)"
    and "i < j" and "j < length requests"
  shows "r_LOD (sort_Slice L (less_req params) requests ! i)
           \<le> r_LOD (sort_Slice L (less_req params) requests ! j) \<and>
         (r_LOD (sort_Slice L (less_req params) requests ! i)
            = r_LOD (sort_Slice L (less_req params) requests ! j) \<longrightarrow>
          dist params (sort_Slice L (less_req params) requests ! i)
            \<le> dist params (sort_Slice L (less_req params) requests ! j)) \<and>
         (in_int64 (p_Width params) \<and> in_int64 (p_Height params) \<and>
          near_center params (sort_Slice L (less_req params) requests ! i) \<and>
          near_center params (sort_Slice L (less_req params) requests ! j) \<and>
          r_LOD (sort_Slice L (less_req params) requests ! i)
            = r_LOD (sort_Slice L (less_req params) requests ! j) \<longrightarrow>
          sq_distance params (sort_Slice L (less_req params) requests ! i)
            \<le> sq_distance params (sort_Slice L (less_req params) requests ! j))"
proof -
  let ?ys = "sort_Slice L (less_req params) requests"
  have ms: "mset ?ys = mset requests" and so: "sorted_wrt (\<lambda>a b. \<not> less_req params b a) ?ys"
    using assms(1) by (simp_all add: sorts_by_def)
  have len: "length ?ys = length requests" using ms by (metis size_mset)
  have st: "set ?ys = set requests" using ms by (metis set_mset_mset)
  have nl: "\<not> less_req params (?ys ! j) (?ys ! i)"
    using so assms(2,3) len by (simp add: sorted_wrt_iff_nth_less)
  have 1: "r_LOD (?ys ! i) \<le> r_LOD (?ys ! j)"
    using nl by (auto simp: less_req_def split: if_splits)
  have 2: "dist params (?ys ! i) \<le> dist params (?ys ! j)" if "r_LOD (?ys ! i) = r_LOD (?ys ! j)"
    using nl that by (auto simp: less_req_def split: if_splits)
  have 3: "sq_distance params (?ys ! i) \<le> sq_distance params (?ys ! j)"
    if "in_int64 (p_Width params)" "in_int64 (p_Height params)"
      "near_center params (?ys ! i)" "near_center params (?ys ! j)"
      "r_LOD (?ys ! i) = r_LOD (?ys ! j)"
  proof -
    have "dist params (?ys ! i) = sq_distance params (?ys ! i)"
      using that by (intro dist_exact) auto
    moreover have "dist params (?ys ! j) = sq_distance params (?ys ! j)"
      using that by (intro dist_exact) auto
    ultimately show ?thesis using 2 [OF that(5)] by simp
  qed
  show ?thesis using 1 2 3 by blast
qed


lemma example_requests_near: "list_all (near_center example_params) example_requests"
  by (simp add: example_requests_def near_center_def example_params_def)

lemma example_params_int64: "in_int64 (p_Width example_params)" "in_int64 (p_Height example_params)"
  by (simp_all add: in_int64_def example_params_def)

lemma example_dist:
  "r \<in> set example_requests \<Longrightarrow> dist example_params r = sq_distance example_params r"
  using example_requests_near
  by (intro dist_exact example_params_int64) (simp add: list_all_iff)

lemma example_requests_sorted:
  "sort_Slice real_lib (less_req example_params) example_requests =
     [\<lparr> r_X = 128, r_Y = 0, r_LOD = 1 \<rparr>, \<lparr> r_X = 256, r_Y = 128, r_LOD = 1 \<rparr>,
      \<lparr> r_X = 128, r_Y = 128, r_LOD = 2 \<rparr>, \<lparr> r_X = 0, r_Y = 0, r_LOD = 2 \<rparr>]"
proof -
  have d: "dist example_params \<lparr> r_X = 0, r_Y = 0, r_LOD = 2 \<rparr> = 32500"
    "dist example_params \<lparr> r_X = 256, r_Y = 128, r_LOD = 1 \<rparr> = 12020"
    "dist example_params \<lparr> r_X = 128, r_Y = 128, r_LOD = 2 \<rparr> = 1268"
    "dist example_params \<lparr> r_X = 128, r_Y = 0, r_LOD = 1 \<rparr> = 10484"
    by (simp_all add: example_dist example_requests_def)
       (simp_all add: sq_distance_def example_params_def)
  show ?thesis
    by (simp add: sort_Slice_real_lib insertionSort_def example_requests_def less_req_def d)
qed

lemma bit_length_eq:
  assumes "2 ^ k \<le> n" "n < 2 ^ Suc k" shows "bit_length n = Suc k"
proof -
  have pos: "0 < n" using assms(1) by (metis less_le_trans zero_less_numeral zero_less_power)
  from bit_length_bounds [OF pos]
  have b: "2 ^ (bit_length n - 1) \<le> n" "n < 2 ^ bit_length n" by simp_all
  have "(2::nat) ^ k < 2 ^ bit_length n" using assms(1) b(2) by (rule le_less_trans)
  then have 1: "k < bit_length n" by (simp add: power_strict_increasing_iff)
  have "(2::nat) ^ (bit_length n - 1) < 2 ^ Suc k" using b(1) assms(2) by (rule le_less_trans)
  then have 2: "bit_length n - 1 < Suc k" by (simp only: power_strict_increasing_iff rel_simps)
  from 1 2 show ?thesis by simp
qed

lemma round_2_53_1: "float64_round 9007199254740993 = 9007199254740992"
proof -
  have "bit_length 9007199254740993 = Suc 53" by (rule bit_length_eq) simp_all
  then show ?thesis by (simp add: float64_round_def Let_def)
qed

lemma round_2_53: "float64_round 9007199254740992 = 9007199254740992"
proof -
  have "bit_length 9007199254740992 = Suc 53" by (rule bit_length_eq) simp_all
  then show ?thesis by (simp add: float64_round_def Let_def)
qed

lemma round_2_106: "float64_round (9007199254740992 * 9007199254740992) = 2 ^ 106"
proof -
  have "bit_length (nat (9007199254740992 * 9007199254740992)) = Suc 106"
    by (rule bit_length_eq) simp_all
  then show ?thesis by (simp add: float64_round_def Let_def)
qed

lemma dist_far: "dist example_params far_request = 2 ^ 106"
proof -
  have c: "go_quot (p_Width example_params) 2 = 150" "go_quot (p_Height example_params) 2 = 100"
    by (simp_all add: go_quot_2 in_int64_def example_params_def)
  have s: "go_sub (r_X far_request) 150 = 9007199254740993" "go_sub (r_Y far_request) 100 = 0"
    by (simp_all add: go_sub_def wrap64_def far_request_def)
  have z: "pow2 (float64_of_int 0) = 0"
    by (simp add: pow2_def float64_of_int_def float64_round_exact)
  have p: "pow2 (float64_of_int 9007199254740993) = 2 ^ 106"
    by (simp only: pow2_def float64_of_int_def round_2_53_1 round_2_106)
  have "float64_round (2 ^ 106 + 0) = 2 ^ 106"
    using round_2_106 by simp
  then show ?thesis by (simp only: dist_def Let_def c s z p)
qed

lemma dist_near: "dist example_params near_request = 2 ^ 106"
proof -
  have c: "go_quot (p_Width example_params) 2 = 150" "go_quot (p_Height example_params) 2 = 100"
    by (simp_all add: go_quot_2 in_int64_def example_params_def)
  have s: "go_sub (r_X near_request) 150 = 9007199254740992" "go_sub (r_Y near_request) 100 = 0"
    by (simp_all add: go_sub_def wrap64_def near_request_def)
  have z: "pow2 (float64_of_int 0) = 0"
    by (simp add: pow2_def float64_of_int_def float64_round_exact)
  have p: "pow2 (float64_of_int 9007199254740992) = 2 ^ 106"
    by (simp only: pow2_def float64_of_int_def round_2_53 round_2_106)
  have "float64_round (2 ^ 106 + 0) = 2 ^ 106"
    using round_2_106 by simp
  then show ?thesis by (simp only: dist_def Let_def c s z p)
qed

lemma mixed_requests_sorted:
  "sort_Slice real_lib (less_req example_params) mixed_requests =
     [\<lparr> r_X = 128, r_Y = 0, r_LOD = 1 \<rparr>, \<lparr> r_X = 256, r_Y = 128, r_LOD = 1 \<rparr>, far_request,
      \<lparr> r_X = 128, r_Y = 128, r_LOD = 2 \<rparr>, \<lparr> r_X = 0, r_Y = 0, r_LOD = 2 \<rparr>]"
proof -
  have d: "dist example_params \<lparr> r_X = 0, r_Y = 0, r_LOD = 2 \<rparr> = 32500"
    "dist example_params \<lparr> r_X = 256, r_Y = 128, r_LOD = 1 \<rparr> = 12020"
    "dist example_params \<lparr> r_X = 128, r_Y = 128, r_LOD = 2 \<rparr> = 1268"
    "dist example_params \<lparr> r_X = 128, r_Y = 0, r_LOD = 1 \<rparr> = 10484"
    by (simp_all add: example_dist example_requests_def)
       (simp_all add: sq_distance_def example_params_def)
  have l: "r_LOD far_request = 1" by (simp add: far_request_def)
  show ?thesis
    by (simp add: sort_Slice_real_lib insertionSort_def mixed_requests_def example_requests_def
        less_req_def d dist_far l)
qed

text \<open>
  Claim C6, as amended. Whenever \<open>sort.Slice\<close> returns the requests sorted by the
  \<open>less\<close> closure, the dispatch order holds the same requests, a request of lower
  \<open>lod\<close> precedes every request of higher \<open>lod\<close>, and among requests of equal
  \<open>lod\<close> one with a smaller distance precedes one with a larger distance, where the
  distance is the squared distance to \<open>(width/2, height/2)\<close> as the code computes it in
  \<open>float64\<close>. That is the exact squared Euclidean distance for a request whose
  origin is within \<open>2^26\<close> of the center on both axes: of two such requests of equal
  \<open>lod\<close>, the nearer one precedes the farther one, whatever the other requests of the
  batch are.
\<close>

theorem dispatch_order:
  assumes "sorts_by (less_req params) requests (sort_Slice L (less_req params) requests)"
    and "a < length requests" and "b < length requests"
  shows "mset (sort_Slice L (less_req params) requests) = mset requests \<and>
         (r_LOD (sort_Slice L (less_req params) requests ! a)
            < r_LOD (sort_Slice L (less_req params) requests ! b) \<longrightarrow> a < b) \<and>
         (r_LOD (sort_Slice L (less_req params) requests ! a)
            = r_LOD (sort_Slice L (less_req params) requests ! b) \<and>
          dist params (sort_Slice L (less_req params) requests ! a)
            < dist params (sort_Slice L (less_req params) requests ! b) \<longrightarrow> a < b) \<and>
         (in_int64 (p_Width params) \<and> in_int64 (p_Height params) \<and>
          near_center params (sort_Slice L (less_req params) requests ! a) \<and>
          near_center params (sort_Slice L (less_req params) requests ! b) \<and>
          r_LOD (sort_Slice L (less_req params) requests ! a)
            = r_LOD (sort_Slice L (less_req params) requests ! b) \<and>
          sq_distance params (sort_Slice L (less_req params) requests ! a)
            < sq_distance params (sort_Slice L (less_req params) requests ! b) \<longrightarrow> a < b)"
proof -
  let ?ys = "sort_Slice L (less_req params) requests"
  have ms: "mset ?ys = mset requests" using assms(1) by (simp add: sorts_by_def)
  have bk: "r_LOD (?ys ! b) \<le> r_LOD (?ys ! a) \<and>
         (r_LOD (?ys ! b) = r_LOD (?ys ! a) \<longrightarrow> dist params (?ys ! b) \<le> dist params (?ys ! a)) \<and>
         (in_int64 (p_Width params) \<and> in_int64 (p_Height params) \<and>
          near_center params (?ys ! b) \<and> near_center params (?ys ! a) \<and>
          r_LOD (?ys ! b) = r_LOD (?ys ! a) \<longrightarrow>
          sq_distance params (?ys ! b) \<le> sq_distance params (?ys ! a))" if "b < a"
    using dispatch_sorted [OF assms(1) that assms(2)] .
  have 1: "a < b" if "r_LOD (?ys ! a) < r_LOD (?ys ! b)"
  proof (rule ccontr)
    assume "\<not> a < b"
    then consider "a = b" | "b < a" by linarith
    then show False using that bk by cases auto
  qed
  have 2: "a < b" if "r_LOD (?ys ! a) = r_LOD (?ys ! b)" "dist params (?ys ! a) < dist params (?ys ! b)"
  proof (rule ccontr)
    assume "\<not> a < b"
    then consider "a = b" | "b < a" by linarith
    then show False using that bk by cases auto
  qed
  have 3: "a < b" if "in_int64 (p_Width params)" "in_int64 (p_Height params)"
      "near_center params (?ys ! a)" "near_center params (?ys ! b)"
      "r_LOD (?ys ! a) = r_LOD (?ys ! b)"
      "sq_distance params (?ys ! a) < sq_distance params (?ys ! b)"
  proof (rule ccontr)
    assume "\<not> a < b"
    then consider "a = b" | "b < a" by linarith
    then show False using that bk by cases auto
  qed
  show ?thesis using ms 1 2 3 by blast
qed

theorem dispatch_order_witness:
  "sorts_by (less_req example_params) mixed_requests
     (sort_Slice real_lib (less_req example_params) mixed_requests) \<and>
   (0::nat) < length mixed_requests \<and> (1::nat) < length mixed_requests \<and>
   (3::nat) < length mixed_requests \<and>
   in_int64 (p_Width example_params) \<and> in_int64 (p_Height example_params) \<and>
   far_request \<in> set mixed_requests \<and> \<not> near_center example_params far_request \<and>
   near_center example_params (sort_Slice real_lib (less_req example_params) mixed_requests ! 0) \<and>
   near_center example_params (sort_Slice real_lib (less_req example_params) mixed_requests ! 1) \<and>
   mset (sort_Slice real_lib (less_req example_params) mixed_requests) = mset mixed_requests \<and>
   r_LOD (sort_Slice real_lib (less_req example_params) mixed_requests ! 1)
     < r_LOD (sort_Slice real_lib (less_req example_params) mixed_requests ! 3) \<and>
   r_LOD (sort_Slice real_lib (less_req example_params) mixed_requests ! 0)
     = r_LOD (sort_Slice real_lib (less_req example_params) mixed_requests ! 1) \<and>
   sq_distance example_params (sort_Slice real_lib (less_req example_params) mixed_requests ! 0)
     < sq_distance example_params (sort_Slice real_lib (less_req example_params) mixed_requests ! 1)"
proof -
  have l: "(1::nat) < length mixed_requests" "(3::nat) < length mixed_requests"
    "(0::nat) < length mixed_requests"
    by (simp_all add: mixed_requests_def example_requests_def)
  note T = dispatch_order [OF real_lib_sorts_requests l(1,2), of example_params]
  note U = dispatch_order [OF real_lib_sorts_requests l(3,1), of example_params]
  have f: "far_request \<in> set mixed_requests" "\<not> near_center example_params far_request"
    by (simp_all add: mixed_requests_def near_center_def far_request_def example_params_def)
  have "r_LOD (sort_Slice real_lib (less_req example_params) mixed_requests ! 1)
     < r_LOD (sort_Slice real_lib (less_req example_params) mixed_requests ! 3)"
    "r_LOD (sort_Slice real_lib (less_req example_params) mixed_requests ! 0)
     = r_LOD (sort_Slice real_lib (less_req example_params) mixed_requests ! 1)"
    "sq_distance example_params (sort_Slice real_lib (less_req example_params) mixed_requests ! 0)
     < sq_distance example_params (sort_Slice real_lib (less_req example_params) mixed_requests ! 1)"
    "near_center example_params (sort_Slice real_lib (less_req example_params) mixed_requests ! 0)"
    "near_center example_params (sort_Slice real_lib (less_req example_params) mixed_requests ! 1)"
    by (simp_all only: mixed_requests_sorted)
       (simp_all add: sq_distance_def near_center_def example_params_def)
  with T [THEN conjunct1] U [THEN conjunct1] l f example_params_int64
    real_lib_sorts_requests [of example_params mixed_requests]
  show ?thesis by blast
qed

text \<open>
  Claim C6 as stated fails for origins far from the center. \<open>float64\<close> rounds
  \<open>2^53 + 1\<close> to \<open>2^53\<close>, so the two requests below have the same computed distance;
  neither is less than the other, and the sort leaves the farther one first.
\<close>

theorem farther_request_dispatched_first:
  "sort_Slice real_lib (less_req example_params) [far_request, near_request]
     = [far_request, near_request] \<and>
   sorts_by (less_req example_params) [far_request, near_request]
     (sort_Slice real_lib (less_req example_params) [far_request, near_request]) \<and>
   r_LOD far_request = r_LOD near_request \<and>
   sq_distance example_params near_request < sq_distance example_params far_request"
proof -
  have "r_LOD near_request = r_LOD far_request"
    by (simp add: far_request_def near_request_def)
  then have "\<not> less_req example_params near_request far_request"
    by (simp add: less_req_def dist_far dist_near)
  then have "sort_Slice real_lib (less_req example_params) [far_request, near_request]
     = [far_request, near_request]"
    by (simp add: sort_Slice_real_lib insertionSort_def)
  moreover have "r_LOD far_request = r_LOD near_request"
    by (simp add: far_request_def near_request_def)
  moreover have "sq_distance example_params near_request < sq_distance example_params far_request"
    by (simp add: sq_distance_def far_request_def near_request_def example_params_def)
  ultimately show ?thesis
    using real_lib_sorts_requests [of example_params "[far_request, near_request]"] by blast
qed

section \<open>Encoding failure\<close>

text \<open>
  In the handler that encodes while streaming, a tile whose encoding fails is skipped and
  the tiles after it are still written.
\<close>

lemma sendEncodedTiles_skips:
  "sendEncodedTiles L (\<lambda>k. True) k tiles =
     (map (\<lambda>t. \<lparr> tm_X = s_X t, tm_Y = s_Y t, tm_Zoom = s_Zoom t,
                  tm_Data = base64_EncodeToString L (fst (png_Encode L (s_Image t))) \<rparr>)
        (filter (\<lambda>t. \<not> snd (png_Encode L (s_Image t))) tiles), AwaitingMessage)"
  by (induction tiles arbitrary: k) (auto simp: encodeTile_def split: prod.splits)

lemma rowLoop_done: "tileWidth \<le> px \<Longrightarrow>
    rowLoop L params tileX tileY tileWidth offset y py px img = Inr img"
  by (subst rowLoop.simps) simp

lemma tileLoop_zero_width:
  "tileLoop L params tileX tileY 0 tileHeight offset py img = Inr img"
proof (induction "nat (tileHeight - py)" arbitrary: py)
  case 0
  then show ?case by (subst tileLoop.simps) simp
next
  case (Suc n)
  then have "n = nat (tileHeight - (py + 1))" "py < tileHeight" by simp_all
  with Suc.hyps(1) [of "py + 1"] show ?case
    by (subst tileLoop.simps) (simp add: rowLoop_done Let_def)
qed

lemma NewRGBA_0_128:
  "NewRGBA 0 128 =
     Inr \<lparr> img_MinX = 0, img_MinY = 0, img_MaxX = 0, img_MaxY = 128, img_Pix = [] \<rparr>"
  by (simp add: NewRGBA_small)

lemma generateJuliaTile_zero_width:
  "NewRGBA 0 tileHeight = Inr img0 \<Longrightarrow>
   generateJuliaTile L now params tileX tileY 0 tileHeight lod offset =
     Inr \<lparr> t_X = tileX, t_Y = tileY, t_Width = 0, t_Height = tileHeight, t_LOD = lod,
           t_Image = fst (png_Encode L img0), t_LastAccessed = now \<rparr>"
  by (simp add: generateJuliaTile_def tileLoop_zero_width)

lemma encode_empty_image:
  "encode_image \<lparr> img_MinX = 0, img_MinY = 0, img_MaxX = 0, img_MaxY = 128, img_Pix = [] \<rparr>
     = ([], True)"
  by (simp add: encode_image_def)

lemma png_Encode_real_lib: "png_Encode real_lib = encode_image"
  by (simp add: real_lib_def)

lemma scan_300_0: "Sscanf_d_d ''300,0'' = (Some 300, Some 0)"
  by (simp add: Sscanf_d_d_def scan_int_def is_blank_def is_digit_def digits_value_def in_int64_def)

lemma scan_128_0: "Sscanf_d_d ''128,0'' = (Some 128, Some 0)"
  by (simp add: Sscanf_d_d_def scan_int_def is_blank_def is_digit_def digits_value_def in_int64_def)

lemma clipExtent_300_300: "clipExtent 300 300 = 0"
  by (simp add: clipExtent_def go_sub_def wrap64_def float64_of_int_def float64_round_exact
      TileSize_def)


text \<open>
  Claim C8. In the tile engine the error of \<open>png.Encode\<close> is not looked at, and the
  handler writes every tile it receives. On a 300 by 200 canvas the batch
  \<open>["300,0", "128,0"]\<close> holds a tile of width 0, for which \<open>png.Encode\<close> fails
  without writing a byte: that tile is written all the same, with width 0 and an empty
  image, after the tile at \<open>(128, 0)\<close>. It is not dropped.
\<close>

theorem encoding_failure_tile_still_sent:
  "(\<exists>img0. NewRGBA 0 128 = Inr img0 \<and> png_Encode real_lib img0 = ([], True)) \<and>
   (\<exists>sent tc'. wsHandler_step real_lib (\<lambda>k. True) (\<lambda>k. k) [] (Some edge_request) =
                  Inr (sent, AwaitingMessage, tc') \<and>
                map m_x sent = [128, 300] \<and> map m_y sent = [0, 0] \<and>
                map m_width sent = [128, 0] \<and> map m_height sent = [128, 128] \<and>
                m_image (sent ! 1) = [])"
proof -
  let ?p = example_params
  let ?a = "\<lparr> r_X = 300, r_Y = 0, r_LOD = 1 \<rparr>"
  let ?b = "\<lparr> r_X = 128, r_Y = 0, r_LOD = 1 \<rparr>"
  have v: "validate ?p = ?p" by (simp add: validate_def example_params_def)
  have qf: "q_Params edge_request = ?p" "q_Offset edge_request = no_offset"
    by (simp_all add: edge_request_def)
  have rq: "requestedTiles_of edge_request = [?a, ?b]"
    by (simp add: requestedTiles_of_def edge_request_def scanTile_def scan_300_0 scan_128_0
        Let_def example_params_def)
  have nc: "near_center ?p ?a" "near_center ?p ?b"
    by (simp_all add: near_center_def example_params_def)
  have d: "dist ?p ?a = 32500" "dist ?p ?b = 10484"
    by (simp_all add: dist_exact [OF example_params_int64] nc)
       (simp_all add: sq_distance_def example_params_def)
  have so: "sort_Slice real_lib (less_req ?p) [?a, ?b] = [?b, ?a]"
    by (simp add: sort_Slice_real_lib insertionSort_def less_req_def d)
  have w: "clipExtent (p_Width ?p) 300 = 0" "clipExtent (p_Height ?p) 0 = 128"
    "clipExtent (p_Width ?p) 128 = 128"
    by (simp_all add: clipExtent_def go_sub_def wrap64_def float64_of_int_def
        float64_round_exact TileSize_def example_params_def)
  have m1: "TileCache_Get [] (getTileKey real_lib ?p (r_X ?b) (r_Y ?b) (r_LOD ?b) no_offset) = None"
    by (simp add: TileCache_Get_def)
  have al: "allocatable ?p ?b"
    by (rule example_allocatable) (simp_all add: example_params_def)
  have al2: "allocatable ?p ?a"
    by (simp add: allocatable_def w NewRGBA_0_128)
  obtain t1 where t1:
    "tileTask real_lib ?p no_offset [] 0 ?b = Inr (t1, cacheTile real_lib [] ?p t1 no_offset)"
    "t_X t1 = 128" "t_Y t1 = 0" "t_LOD t1 = 1"
    "t_Width t1 = 128" "t_Height t1 = 128"
    using tileTask_miss [OF m1 al, of 0] w by auto
  let ?tc1 = "cacheTile real_lib [] ?p t1 no_offset"
  have tc1: "?tc1 = [(getTileKey real_lib ?p 128 0 1 no_offset, t1)]"
    using t1 by (simp add: cacheTile_empty)
  have "getTileKey real_lib ?p 128 0 1 no_offset \<noteq> getTileKey real_lib ?p 300 0 1 no_offset"
    using getTileKey_x_inj [of real_lib ?p 128 0 1 no_offset 300] by auto
  then have m2: "TileCache_Get ?tc1
      (getTileKey real_lib ?p (r_X ?a) (r_Y ?a) (r_LOD ?a) no_offset) = None"
    by (simp add: tc1 TileCache_Get_def)
  obtain t2 where t2:
    "tileTask real_lib ?p no_offset ?tc1 1 ?a = Inr (t2, cacheTile real_lib ?tc1 ?p t2 no_offset)"
    "generateJuliaTile real_lib 1 ?p (r_X ?a) (r_Y ?a) (clipExtent (p_Width ?p) (r_X ?a))
       (clipExtent (p_Height ?p) (r_Y ?a)) (r_LOD ?a) no_offset = Inr t2"
    using tileTask_miss [OF m2 al2, of 1] by auto
  have enc: "png_Encode real_lib
      \<lparr> img_MinX = 0, img_MinY = 0, img_MaxX = 0, img_MaxY = 128, img_Pix = [] \<rparr> = ([], True)"
    by (simp add: png_Encode_real_lib encode_empty_image)
  have t2v: "t_X t2 = 300" "t_Y t2 = 0" "t_Width t2 = 0" "t_Height t2 = 128" "t_Image t2 = []"
    using t2(2) by (auto simp: w generateJuliaTile_zero_width [OF NewRGBA_0_128] enc)
  have run: "runTasks real_lib ?p no_offset (\<lambda>k. k) 0 [] [?b, ?a] =
      Inr ([t1, t2], cacheTile real_lib ?tc1 ?p t2 no_offset)"
    using t1(1) t2(1) by simp
  have "wsHandler_step real_lib (\<lambda>k. True) (\<lambda>k. k) [] (Some edge_request) =
      Inr ([tileMessage real_lib t1, tileMessage real_lib t2], AwaitingMessage,
           cacheTile real_lib ?tc1 ?p t2 no_offset)"
    by (simp only: wsHandler_step_def generateJuliaSet_def Let_def qf v rq so run
        sendTiles_all_written option.case sum.case prod.case list.map)
  moreover have "base64_EncodeToString real_lib [] = []" by (simp add: real_lib_def)
  ultimately show ?thesis
    using enc NewRGBA_0_128 t1 t2v by (auto simp: tileMessage_def)
qed

section \<open>Key and content\<close>

lemma split_comma:
  "comma_free a \<Longrightarrow> comma_free a' \<Longrightarrow>
     (a @ CHR '','' # r = a' @ CHR '','' # r') = (a = a' \<and> r = r')"
proof (induction a arbitrary: a')
  case Nil
  then show ?case by (cases a') (auto simp: comma_free_def)
next
  case (Cons c cs)
  show ?case
  proof (cases a')
    case Nil
    with Cons.prems show ?thesis by (auto simp: comma_free_def)
  next
    case (Cons c' cs')
    with Cons.prems Cons.IH [of cs'] show ?thesis by (auto simp: comma_free_def)
  qed
qed

lemma comma_free_fmt_d: "comma_free (fmt_d n)"
  using digits_all_digit comma_not_digit minus_not_digit
  by (auto simp: comma_free_def fmt_d_def)

lemma getTileKey_fields:
  assumes "\<forall>v. comma_free (fmt_f L v)"
    and "getTileKey L p x y lod off = getTileKey L p' x' y' lod' off'"
  shows "fmt_f L (c_Real (p_C p)) = fmt_f L (c_Real (p_C p')) \<and>
         fmt_f L (c_Imag (p_C p)) = fmt_f L (c_Imag (p_C p')) \<and>
         fmt_f L (c_Real (p_Center p)) = fmt_f L (c_Real (p_Center p')) \<and>
         fmt_f L (c_Imag (p_Center p)) = fmt_f L (c_Imag (p_Center p')) \<and>
         fmt_f L (p_Zoom p) = fmt_f L (p_Zoom p') \<and>
         p_MaxIterations p = p_MaxIterations p' \<and> p_Width p = p_Width p' \<and>
         p_Height p = p_Height p' \<and> p_Coloring p = p_Coloring p' \<and>
         x = x' \<and> y = y' \<and> lod = lod' \<and>
         fmt_f L (o_X off) = fmt_f L (o_X off') \<and> fmt_f L (o_Y off) = fmt_f L (o_Y off')"
  using assms(2) assms(1) [rule_format]
  by (simp add: getTileKey_def split_comma comma_free_fmt_d) (auto dest: fmt_d_inj)


lemma comma_free_fmt_real: "comma_free (fmt_real v)"
  using digits_all_digit comma_not_digit
  by (auto simp: comma_free_def fmt_real_def pad6_def Let_def)

lemma comma_free_real_lib: "\<forall>v. comma_free (fmt_f real_lib v)"
  by (simp add: real_lib_def comma_free_fmt_real)

lemma juliaPixel_LOD: "juliaPixel L (p\<lparr> p_LOD := l \<rparr>) = juliaPixel L p"
  by (intro ext) (simp add: juliaPixel_def case_prod_beta Let_def)

lemma rowLoop_LOD:
  "rowLoop L (p\<lparr> p_LOD := l \<rparr>) tileX tileY tileWidth offset y py px img =
   rowLoop L p tileX tileY tileWidth offset y py px img"
proof (induction L p tileX tileY tileWidth offset y py px img rule: rowLoop.induct)
  case (1 L p tileX tileY tileWidth offset y py px img)
  show ?case
    using "1.IH"
    by (subst (1 2) rowLoop.simps) (auto simp: juliaPixel_LOD split: sum.splits)
qed

lemma tileLoop_LOD:
  "tileLoop L (p\<lparr> p_LOD := l \<rparr>) tileX tileY tileWidth tileHeight offset py img =
   tileLoop L p tileX tileY tileWidth tileHeight offset py img"
proof (induction L p tileX tileY tileWidth tileHeight offset py img rule: tileLoop.induct)
  case (1 L p tileX tileY tileWidth tileHeight offset py img)
  show ?case
    using "1.IH"
    by (subst (1 2) tileLoop.simps) (auto simp: rowLoop_LOD Let_def split: sum.splits)
qed

lemma params_LOD_only:
  assumes "p_C p = p_C p'" "p_Center p = p_Center p'" "p_Zoom p = p_Zoom p'"
    "p_Coloring p = p_Coloring p'" "p_MaxIterations p = p_MaxIterations p'"
    "p_Width p = p_Width p'" "p_Height p = p_Height p'"
  shows "(p' :: 'f JuliaParams) = p\<lparr> p_LOD := p_LOD p' \<rparr>"
  using assms by (cases p, cases p') simp


lemma generateJuliaTile_LOD:
  "generateJuliaTile L now (p\<lparr> p_LOD := l \<rparr>) x y w h lod off =
   generateJuliaTile L now p x y w h lod off"
  by (simp add: generateJuliaTile_def tileLoop_LOD cong: sum.case_cong)

lemma generateJuliaTile_now:
  "generateJuliaTile L now' p x y w h lod off =
     map_sum id (\<lambda>t. t\<lparr> t_LastAccessed := now' \<rparr>) (generateJuliaTile L now p x y w h lod off)"
  by (simp add: generateJuliaTile_def split: sum.splits)

text \<open>
  Claim C1, as amended. When no printed float holds a comma, two inputs with the same key
  have the same \<open>maxIterations\<close>, \<open>width\<close>, \<open>height\<close>, coloring, tile
  coordinate and \<open>lod\<close>, and each of their float fields prints the same under \<open>%f\<close>.
  If moreover the float fields are equal, the two calls of \<open>generateJuliaTile\<close> (made,
  as the scheduler makes them, with the clipped extents) have the same outcome but for
  the timestamp of the tile: a panic of \<open>image.NewRGBA\<close> is the same panic in both, and
  when \<open>image.NewRGBA\<close> returns an image for the clipped extents both calls return
  tiles with the same image bytes and extents.
\<close>

theorem equal_key_equal_image:
  assumes "\<forall>v. comma_free (fmt_f L v)"
    and "getTileKey L p x y lod off = getTileKey L p' x' y' lod' off'"
  shows "p_MaxIterations p = p_MaxIterations p' \<and> p_Width p = p_Width p' \<and>
         p_Height p = p_Height p' \<and> p_Coloring p = p_Coloring p' \<and>
         x = x' \<and> y = y' \<and> lod = lod' \<and>
         fmt_f L (c_Real (p_C p)) = fmt_f L (c_Real (p_C p')) \<and>
         fmt_f L (c_Imag (p_C p)) = fmt_f L (c_Imag (p_C p')) \<and>
         fmt_f L (c_Real (p_Center p)) = fmt_f L (c_Real (p_Center p')) \<and>
         fmt_f L (c_Imag (p_Center p)) = fmt_f L (c_Imag (p_Center p')) \<and>
         fmt_f L (p_Zoom p) = fmt_f L (p_Zoom p') \<and>
         fmt_f L (o_X off) = fmt_f L (o_X off') \<and> fmt_f L (o_Y off) = fmt_f L (o_Y off') \<and>
         (p_C p = p_C p' \<and> p_Center p = p_Center p' \<and> p_Zoom p = p_Zoom p' \<and> off = off' \<longrightarrow>
            generateJuliaTile L now' p' x' y' (clipExtent (p_Width p') x')
                (clipExtent (p_Height p') y') lod' off' =
              map_sum id (\<lambda>t. t\<lparr> t_LastAccessed := now' \<rparr>)
                (generateJuliaTile L now p x y (clipExtent (p_Width p) x)
                   (clipExtent (p_Height p) y) lod off) \<and>
            (\<not> isl (NewRGBA (clipExtent (p_Width p) x) (clipExtent (p_Height p) y)) \<longrightarrow>
               (\<exists>t t'. generateJuliaTile L now p x y (clipExtent (p_Width p) x)
                           (clipExtent (p_Height p) y) lod off = Inr t \<and>
                        generateJuliaTile L now' p' x' y' (clipExtent (p_Width p') x')
                           (clipExtent (p_Height p') y') lod' off' = Inr t' \<and>
                        t_Image t = t_Image t' \<and> t_Width t = t_Width t' \<and>
                        t_Height t = t_Height t')))"
proof -
  note f = getTileKey_fields [OF assms]
  let ?w = "clipExtent (p_Width p) x" and ?h = "clipExtent (p_Height p) y"
  have same: "generateJuliaTile L now' p' x' y' (clipExtent (p_Width p') x')
                (clipExtent (p_Height p') y') lod' off' =
              map_sum id (\<lambda>t. t\<lparr> t_LastAccessed := now' \<rparr>)
                (generateJuliaTile L now p x y ?w ?h lod off)"
    if fl: "p_C p = p_C p'" "p_Center p = p_Center p'" "p_Zoom p = p_Zoom p'" "off = off'"
  proof -
    have p': "p' = p\<lparr> p_LOD := p_LOD p' \<rparr>"
      using fl f by (intro params_LOD_only) simp_all
    have e: "x' = x" "y' = y" "lod' = lod" "off' = off" "p_Width p' = p_Width p"
      "p_Height p' = p_Height p"
      using f fl by simp_all
    have "generateJuliaTile L now' p' x y ?w ?h lod off =
        generateJuliaTile L now' p x y ?w ?h lod off"
      by (subst p') (simp only: generateJuliaTile_LOD)
    also have "\<dots> = map_sum id (\<lambda>t. t\<lparr> t_LastAccessed := now' \<rparr>)
                (generateJuliaTile L now p x y ?w ?h lod off)"
      by (rule generateJuliaTile_now)
    finally show ?thesis by (simp only: e)
  qed
  have img: "\<exists>t t'. generateJuliaTile L now p x y ?w ?h lod off = Inr t \<and>
                     generateJuliaTile L now' p' x' y' (clipExtent (p_Width p') x')
                        (clipExtent (p_Height p') y') lod' off' = Inr t' \<and>
                     t_Image t = t_Image t' \<and> t_Width t = t_Width t' \<and>
                     t_Height t = t_Height t'"
    if fl: "p_C p = p_C p'" "p_Center p = p_Center p'" "p_Zoom p = p_Zoom p'" "off = off'"
      and al: "\<not> isl (NewRGBA ?w ?h)"
  proof -
    from al obtain img0 where "NewRGBA ?w ?h = Inr img0"
      by (cases "NewRGBA ?w ?h") auto
    from generateJuliaTile_Inr [OF this, of L p x y off now lod]
    obtain t where t: "generateJuliaTile L now p x y ?w ?h lod off = Inr t" by auto
    with same [OF fl] show ?thesis by simp
  qed
  show ?thesis using f same img by blast
qed

theorem equal_key_equal_image_witness:
  "(\<forall>v. comma_free (fmt_f real_lib v)) \<and>
   getTileKey real_lib example_params 0 0 1 no_offset =
     getTileKey real_lib (example_params\<lparr> p_LOD := 7 \<rparr>) 0 0 1 no_offset \<and>
   p_C example_params = p_C (example_params\<lparr> p_LOD := 7 \<rparr>) \<and>
   p_Center example_params = p_Center (example_params\<lparr> p_LOD := 7 \<rparr>) \<and>
   p_Zoom example_params = p_Zoom (example_params\<lparr> p_LOD := 7 \<rparr>) \<and>
   \<not> isl (NewRGBA (clipExtent (p_Width example_params) 0)
            (clipExtent (p_Height example_params) 0)) \<and>
   (\<exists>t t'. generateJuliaTile real_lib 0 example_params 0 0
               (clipExtent (p_Width example_params) 0) (clipExtent (p_Height example_params) 0)
               1 no_offset = Inr t \<and>
            generateJuliaTile real_lib 5 (example_params\<lparr> p_LOD := 7 \<rparr>) 0 0
               (clipExtent (p_Width (example_params\<lparr> p_LOD := 7 \<rparr>)) 0)
               (clipExtent (p_Height (example_params\<lparr> p_LOD := 7 \<rparr>)) 0)
               1 no_offset = Inr t' \<and>
            t_Image t = t_Image t' \<and> t_Width t = t_Width t' \<and> t_Height t = t_Height t')"
proof -
  have k: "getTileKey real_lib example_params 0 0 1 no_offset =
     getTileKey real_lib (example_params\<lparr> p_LOD := 7 \<rparr>) 0 0 1 no_offset"
    by (simp add: getTileKey_def)
  have fl: "p_C example_params = p_C (example_params\<lparr> p_LOD := 7 \<rparr>)"
    "p_Center example_params = p_Center (example_params\<lparr> p_LOD := 7 \<rparr>)"
    "p_Zoom example_params = p_Zoom (example_params\<lparr> p_LOD := 7 \<rparr>)"
    by simp_all
  have "allocatable example_params \<lparr> r_X = 0, r_Y = 0, r_LOD = 1 \<rparr>"
    by (rule example_allocatable) (simp_all add: example_params_def)
  then have al: "\<not> isl (NewRGBA (clipExtent (p_Width example_params) 0)
            (clipExtent (p_Height example_params) 0))"
    by (simp add: allocatable_def)
  from equal_key_equal_image [OF comma_free_real_lib k, of 5 0] fl al comma_free_real_lib k
  show ?thesis by blast
qed

text \<open>
  Claim C1 as stated fails: \<open>%f\<close> keeps six decimals. The centers \<open>2.5\<close> and
  \<open>2.5 + 2^-30\<close> print alike, so the keys are equal; on a canvas of one pixel the first
  puts the pixel at \<open>z = 2\<close>, which does not escape and is black, the second at
  \<open>z = 2 + 2^-30\<close>, which escapes at once and takes the first gray of the palette.
\<close>

lemma round_even_a: "round_even (\<bar>5 / 2\<bar> * 1000000) = 2500000"
  by (simp add: round_even_def Let_def)

lemma round_even_b: "round_even (\<bar>5 / 2 + 1 / 2 ^ 30\<bar> * 1000000) = 2500000"
proof -
  have f: "\<lfloor>(5 / 2 + 1 / 2 ^ 30) * 1000000 :: real\<rfloor> = 2500000"
    by (rule floor_unique) simp_all
  have "\<bar>5 / 2 + 1 / 2 ^ 30 :: real\<bar> = 5 / 2 + 1 / 2 ^ 30" by simp
  then show ?thesis
    by (simp only: round_even_def Let_def f) simp
qed

lemma fmt_real_collide: "fmt_real (5 / 2 + 1 / 2 ^ 30) = fmt_real (5 / 2)"
proof -
  have "\<not> (5 / 2 + 1 / 2 ^ 30 :: real) < 0" "\<not> (5 / 2 :: real) < 0" by simp_all
  then show ?thesis
    by (simp only: fmt_real_def Let_def round_even_a round_even_b if_False)
qed

lemma collide_keys:
  "getTileKey real_lib collide_a 0 0 1 no_offset = getTileKey real_lib collide_b 0 0 1 no_offset"
proof -
  have "fmt_f real_lib (5 / 2 + 1 / 2 ^ 30) = fmt_f real_lib (5 / 2)"
    by (simp only: real_lib_def golib.simps fmt_real_collide)
  then show ?thesis
    by (simp add: getTileKey_def collide_a_def collide_b_def)
qed

lemma grey_entry_0: "grey_entry real_lib 0 = 5658198"
proof -
  have z: "f_div real_lib (f_neg real_lib (f_int real_lib 0)) (f_lit real_lib 50) = 0"
    by (simp add: real_lib_def)
  have e: "f_to_int real_lib (f_exp real_lib 0) = 1"
    by (simp add: real_lib_def trunc_real_def)
  have m: "go_mul 512 1 = 512" by (simp add: go_mul_def wrap64_def)
  have q: "go_quot 512 3 = 170" by (simp add: go_quot_def wrap64_def)
  have a: "go_add 0 512 = 512" by (simp add: go_add_def wrap64_def)
  have s: "go_sub 512 170 = 342" by (simp add: go_sub_def wrap64_def)
  have w: "uint (word_of_int 342 :: u8) = 86" by simp
  have b: "push_bit 16 (86::int) OR push_bit 8 86 OR 86 = 5658198" by simp
  show ?thesis
    by (simp only: grey_entry_def Let_def z e m q a s w b)
qed

lemma GreyPalette_0: "GreyPalette real_lib 0 1 z = Inr (RGBA 86 86 86 255)"
proof -
  have "createGreyPalette real_lib ! 0 = 5658198"
    by (simp add: createGreyPalette_def grey_entry_0 del: upt_rec_numeral)
  moreover have "createGreyPalette real_lib \<noteq> []"
    using length_createGreyPalette [of real_lib] by auto
  ultimately show ?thesis
    by (simp add: GreyPalette_def Let_def go_rem_def length_createGreyPalette)
qed


lemma collide_coord:
  "plane_coord real_lib 0 0 1 1 v = v - 1 / 2"
  by (simp add: plane_coord_def real_lib_def)

lemma escape_collide_a: "escape real_lib (0, 0) 1 0 (2, 0) = (1, (4, 0))"
proof -
  have "\<not> f_gt real_lib (c_abs real_lib (2, 0)) (f_lit real_lib 2)"
    by (simp add: real_lib_def)
  moreover have "c_add real_lib (c_mul real_lib (2, 0) (2, 0)) (0, 0) = (4, 0)"
    by (simp add: c_add_def c_mul_def real_lib_def)
  moreover have "escape real_lib (0, 0) 1 1 (4, 0) = (1, (4, 0))"
    by (subst escape.simps) simp
  ultimately show ?thesis by (subst escape.simps) simp
qed

lemma escape_collide_b:
  "escape real_lib (0, 0) 1 0 (2 + 1 / 2 ^ 30, 0) = (0, (2 + 1 / 2 ^ 30, 0))"
proof -
  have "2 < sqrt ((2 + 1 / 2 ^ 30) * (2 + 1 / 2 ^ 30) + 0 * 0)"
    by (rule real_less_rsqrt) simp
  then have "f_gt real_lib (c_abs real_lib (2 + 1 / 2 ^ 30, 0)) (f_lit real_lib 2)"
    by (simp add: real_lib_def)
  then show ?thesis by (subst escape.simps) simp
qed

lemma juliaPixel_collide_a:
  "juliaPixel real_lib collide_a 0 0 no_offset 0 0 0 = Inr (RGBA 0 0 0 255)"
proof -
  have "plane_coord real_lib (go_add 0 0) (o_X no_offset) (p_Zoom collide_a) (p_Width collide_a)
          (c_Real (p_Center collide_a)) = 2"
    by (simp add: collide_coord go_add_small no_offset_def collide_a_def)
  then show ?thesis
    by (simp add: juliaPixel_def Let_def Black_def escape_collide_a collide_a_def)
qed

lemma juliaPixel_collide_b:
  "juliaPixel real_lib collide_b 0 0 no_offset 0 0 0 = Inr (RGBA 86 86 86 255)"
proof -
  have "plane_coord real_lib (go_add 0 0) (o_X no_offset) (p_Zoom collide_b) (p_Width collide_b)
          (c_Real (p_Center collide_b)) = 2 + 1 / 2 ^ 30"
    by (simp add: collide_coord go_add_small no_offset_def collide_a_def collide_b_def)
  moreover have "(c_Real (p_C collide_b), c_Imag (p_C collide_b)) = (0, 0)"
    "p_MaxIterations collide_b = 1" "p_Coloring collide_b = 10"
    by (simp_all add: collide_a_def collide_b_def)
  ultimately show ?thesis
    by (simp only: juliaPixel_def Let_def escape_collide_b prod.case)
       (simp add: ReturnRGBA_def GreyPalette_0)
qed

lemma tileLoop_done: "tileHeight \<le> py \<Longrightarrow>
    tileLoop L params tileX tileY tileWidth tileHeight offset py img = Inr img"
  by (subst tileLoop.simps) simp

lemma collide_row:
  assumes "juliaPixel real_lib p 0 0 no_offset 0 0 0 = Inr c"
    and "p_Zoom p = 1" "p_Height p = 1" "c_Imag (p_Center p) = 1 / 2"
  shows "tileLoop real_lib p 0 0 1 1 no_offset 0
            \<lparr> img_MinX = 0, img_MinY = 0, img_MaxX = 1, img_MaxY = 1, img_Pix = [RGBA 0 0 0 0] \<rparr> =
           Inr \<lparr> img_MinX = 0, img_MinY = 0, img_MaxX = 1, img_MaxY = 1, img_Pix = [c] \<rparr>"
proof -
  have y: "plane_coord real_lib (go_add 0 0) (o_Y no_offset) (p_Zoom p) (p_Height p)
             (c_Imag (p_Center p)) = 0"
    by (simp add: assms collide_coord go_add_small no_offset_def)
  have s: "img_Set \<lparr> img_MinX = 0, img_MinY = 0, img_MaxX = 1, img_MaxY = 1,
                     img_Pix = [RGBA 0 0 0 0] \<rparr> 0 0 c =
      \<lparr> img_MinX = 0, img_MinY = 0, img_MaxX = 1, img_MaxY = 1, img_Pix = [c] \<rparr>"
    by (simp add: img_Set_def)
  have r0: "rowLoop real_lib p 0 0 1 no_offset 0 0 0
      \<lparr> img_MinX = 0, img_MinY = 0, img_MaxX = 1, img_MaxY = 1, img_Pix = [RGBA 0 0 0 0] \<rparr> =
      Inr \<lparr> img_MinX = 0, img_MinY = 0, img_MaxX = 1, img_MaxY = 1, img_Pix = [c] \<rparr>"
    by (subst rowLoop.simps) (simp add: assms(1) rowLoop_done s)
  show ?thesis
    by (subst tileLoop.simps) (simp add: Let_def y r0 tileLoop_done)
qed


lemma encode_pixel:
  "fst (png_Encode real_lib
     \<lparr> img_MinX = 0, img_MinY = 0, img_MaxX = 1, img_MaxY = 1, img_Pix = [RGBA r g b a] \<rparr>) =
   [49, 120, 49, 58, r, g, b, a]"
proof -
  have "map (\<lambda>c. word_of_nat (of_char c) :: u8) (fmt_d 1) = [49]"
    by (simp add: fmt_d_def digits.simps digit_char_def)
  then show ?thesis
    by (simp add: png_Encode_real_lib encode_image_def)
qed

lemma NewRGBA_1_1:
  "NewRGBA 1 1 =
     Inr \<lparr> img_MinX = 0, img_MinY = 0, img_MaxX = 1, img_MaxY = 1, img_Pix = [RGBA 0 0 0 0] \<rparr>"
  by (simp add: NewRGBA_small)

lemma collide_extent: "clipExtent 1 0 = 1"
  by (simp add: clipExtent_def go_sub_def wrap64_def float64_of_int_def float64_round_exact
      TileSize_def)

theorem equal_key_different_image:
  "getTileKey real_lib collide_a 0 0 1 no_offset = getTileKey real_lib collide_b 0 0 1 no_offset \<and>
   generateJuliaTile real_lib 0 collide_a 0 0 (clipExtent (p_Width collide_a) 0)
       (clipExtent (p_Height collide_a) 0) 1 no_offset =
     Inr \<lparr> t_X = 0, t_Y = 0, t_Width = 1, t_Height = 1, t_LOD = 1,
           t_Image = [49, 120, 49, 58, 0, 0, 0, 255], t_LastAccessed = 0 \<rparr> \<and>
   generateJuliaTile real_lib 0 collide_b 0 0 (clipExtent (p_Width collide_b) 0)
       (clipExtent (p_Height collide_b) 0) 1 no_offset =
     Inr \<lparr> t_X = 0, t_Y = 0, t_Width = 1, t_Height = 1, t_LOD = 1,
           t_Image = [49, 120, 49, 58, 86, 86, 86, 255], t_LastAccessed = 0 \<rparr> \<and>
   [49, 120, 49, 58, 0, 0, 0, 255] \<noteq> [49, 120, 49, 58, 86, 86, 86, 255 :: u8]"
proof -
  have fa: "p_Zoom collide_a = 1" "p_Height collide_a = 1" "p_Width collide_a = 1"
    "c_Imag (p_Center collide_a) = 1 / 2"
    by (simp_all add: collide_a_def)
  have fb: "p_Zoom collide_b = 1" "p_Height collide_b = 1" "p_Width collide_b = 1"
    "c_Imag (p_Center collide_b) = 1 / 2"
    by (simp_all add: collide_a_def collide_b_def)
  note la = collide_row [OF juliaPixel_collide_a fa(1,2,4)]
  note lb = collide_row [OF juliaPixel_collide_b fb(1,2,4)]
  have "generateJuliaTile real_lib 0 collide_a 0 0 (clipExtent (p_Width collide_a) 0)
       (clipExtent (p_Height collide_a) 0) 1 no_offset =
     Inr \<lparr> t_X = 0, t_Y = 0, t_Width = 1, t_Height = 1, t_LOD = 1,
           t_Image = [49, 120, 49, 58, 0, 0, 0, 255], t_LastAccessed = 0 \<rparr>"
    by (simp add: generateJuliaTile_def fa collide_extent NewRGBA_1_1 la encode_pixel)
  moreover have "generateJuliaTile real_lib 0 collide_b 0 0 (clipExtent (p_Width collide_b) 0)
       (clipExtent (p_Height collide_b) 0) 1 no_offset =
     Inr \<lparr> t_X = 0, t_Y = 0, t_Width = 1, t_Height = 1, t_LOD = 1,
           t_Image = [49, 120, 49, 58, 86, 86, 86, 255], t_LastAccessed = 0 \<rparr>"
    by (simp add: generateJuliaTile_def fb collide_extent NewRGBA_1_1 lb encode_pixel)
  moreover have "[49, 120, 49, 58, 0, 0, 0, 255] \<noteq> [49, 120, 49, 58, 86, 86, 86, 255 :: u8]"
    by simp
  ultimately show ?thesis using collide_keys by blast
qed

section \<open>Extents of emitted tiles\<close>

lemma set_update_subset: "set (AList.update k v al) \<subseteq> insert (k, v) (set al)"
  by (induction al) auto

lemma set_delete_subset: "set (AList.delete k al) \<subseteq> set al"
  by (auto simp: AList.delete_eq)

lemma cache_ok_empty: "cache_ok L []"
  by (simp add: cache_ok_def)

lemma cache_ok_Set:
  assumes "cache_ok L tc"
    and "key = getTileKey L params (t_X tile) (t_Y tile) (t_LOD tile) offset"
    and "t_Width tile = clipExtent (p_Width params) (t_X tile)"
    and "t_Height tile = clipExtent (p_Height params) (t_Y tile)"
  shows "cache_ok L (TileCache_Set tc key tile)"
  unfolding cache_ok_def TileCache_Set_def
proof (intro ballI, clarify)
  fix k t assume "(k, t) \<in> set (AList.update key tile tc)"
  then consider "(k, t) = (key, tile)" | "(k, t) \<in> set tc"
    using set_update_subset [of key tile tc] by auto
  then show "\<exists>params offset.
        k = getTileKey L params (t_X t) (t_Y t) (t_LOD t) offset \<and>
        t_Width t = clipExtent (p_Width params) (t_X t) \<and>
        t_Height t = clipExtent (p_Height params) (t_Y t)"
  proof cases
    case 1
    with assms(2-4) show ?thesis by auto
  next
    case 2
    with assms(1) show ?thesis by (auto simp: cache_ok_def)
  qed
qed

lemma cache_ok_Delete: "cache_ok L tc \<Longrightarrow> cache_ok L (TileCache_Delete tc key)"
  using set_delete_subset [of key tc] by (auto simp: cache_ok_def TileCache_Delete_def)

lemma cache_ok_cacheTile:
  assumes "cache_ok L tc"
    and "t_Width tile = clipExtent (p_Width params) (t_X tile)"
    and "t_Height tile = clipExtent (p_Height params) (t_Y tile)"
  shows "cache_ok L (cacheTile L tc params tile offset)"
  using cache_ok_Set [OF assms(1) refl assms(2,3), of offset]
  by (simp add: cacheTile_def Let_def cache_ok_Delete)

lemma cache_hit_extents:
  assumes "\<forall>v. comma_free (fmt_f L v)" "cache_ok L tc"
    and "TileCache_Get tc (getTileKey L params x y lod offset) = Some t"
  shows "t_X t = x \<and> t_Y t = y \<and> t_LOD t = lod \<and>
         t_Width t = clipExtent (p_Width params) x \<and>
         t_Height t = clipExtent (p_Height params) y"
proof -
  have "(getTileKey L params x y lod offset, t) \<in> set tc"
    using assms(3) by (simp add: TileCache_Get_def map_of_SomeD)
  with assms(2) obtain p off where
    k: "getTileKey L params x y lod offset = getTileKey L p (t_X t) (t_Y t) (t_LOD t) off"
    and e: "t_Width t = clipExtent (p_Width p) (t_X t)" "t_Height t = clipExtent (p_Height p) (t_Y t)"
    by (auto simp: cache_ok_def)
  from getTileKey_fields [OF assms(1) k] e show ?thesis by simp
qed


lemma tileTask_extents:
  assumes "\<forall>v. comma_free (fmt_f L v)" "cache_ok L tc" "allocatable params r"
  shows "\<exists>t tc'. tileTask L params offset tc now r = Inr (t, tc') \<and>
           t_X t = r_X r \<and> t_Y t = r_Y r \<and> t_LOD t = r_LOD r \<and>
           t_Width t = clipExtent (p_Width params) (r_X r) \<and>
           t_Height t = clipExtent (p_Height params) (r_Y r) \<and> cache_ok L tc'"
proof (cases "TileCache_Get tc (getTileKey L params (r_X r) (r_Y r) (r_LOD r) offset)")
  case None
  from tileTask_miss [OF None assms(3), of now]
  obtain t where t: "tileTask L params offset tc now r = Inr (t, cacheTile L tc params t offset)"
    "t_X t = r_X r" "t_Y t = r_Y r" "t_LOD t = r_LOD r"
    "t_Width t = clipExtent (p_Width params) (r_X r)"
    "t_Height t = clipExtent (p_Height params) (r_Y r)"
    by auto
  have "cache_ok L (cacheTile L tc params t offset)"
    using assms(2) t by (intro cache_ok_cacheTile) simp_all
  with t show ?thesis by auto
next
  case (Some c)
  let ?key = "getTileKey L params (r_X r) (r_Y r) (r_LOD r) offset"
  let ?t = "c\<lparr> t_LastAccessed := now \<rparr>"
  note h = cache_hit_extents [OF assms(1,2) Some]
  have "cache_ok L (TileCache_Set tc ?key ?t)"
    using assms(2) h by (intro cache_ok_Set [where params = params and offset = offset]) simp_all
  with tileTask_hit [OF Some, of now] h show ?thesis by auto
qed

text \<open>
  Claim C4. For a requested tile whose origin lies within the canvas, the task emits a tile
  of width \<open>min(TileSize, width - tileX)\<close> and height \<open>min(TileSize, height - tileY)\<close>,
  whether it generates the tile or finds it in the cache, and the message built from the
  tile carries these extents. The cache is any cache filled by tasks, and stays one. On a
  300 by 200 canvas the tile at \<open>(256, 128)\<close> is 44 wide and 72 high.
\<close>

theorem tile_extents_clipped:
  assumes "\<forall>v. comma_free (fmt_f L v)" and "cache_ok L tc"
    and "0 \<le> r_X r" "r_X r < p_Width params" "0 \<le> r_Y r" "r_Y r < p_Height params"
    and "in_int64 (p_Width params)" "in_int64 (p_Height params)"
  shows "\<exists>t tc'. tileTask L params offset tc now r = Inr (t, tc') \<and>
           t_X t = r_X r \<and> t_Y t = r_Y r \<and>
           t_Width t = min TileSize (p_Width params - r_X r) \<and>
           t_Height t = min TileSize (p_Height params - r_Y r) \<and>
           m_width (tileMessage L t) = min TileSize (p_Width params - r_X r) \<and>
           m_height (tileMessage L t) = min TileSize (p_Height params - r_Y r) \<and>
           cache_ok L tc'"
proof -
  obtain t tc' where t: "tileTask L params offset tc now r = Inr (t, tc')"
    "t_X t = r_X r" "t_Y t = r_Y r"
    "t_Width t = clipExtent (p_Width params) (r_X r)"
    "t_Height t = clipExtent (p_Height params) (r_Y r)" "cache_ok L tc'"
    using tileTask_extents [OF assms(1,2) allocatable_in_canvas [OF assms(3,4,7,5,6,8)],
        of offset now]
    by auto
  have "clipExtent (p_Width params) (r_X r) = min TileSize (p_Width params - r_X r)"
    using assms(3,4,7) by (rule clipExtent_min)
  moreover have "clipExtent (p_Height params) (r_Y r) = min TileSize (p_Height params - r_Y r)"
    using assms(5,6,8) by (rule clipExtent_min)
  ultimately show ?thesis using t by (auto simp: tileMessage_def)
qed

theorem tile_extents_clipped_witness:
  "(\<forall>v. comma_free (fmt_f real_lib v)) \<and> cache_ok real_lib [] \<and>
   (0::int) \<le> 256 \<and> 256 < p_Width example_params \<and> (0::int) \<le> 128 \<and>
   128 < p_Height example_params \<and>
   in_int64 (p_Width example_params) \<and> in_int64 (p_Height example_params) \<and>
   (\<exists>t tc'. tileTask real_lib example_params no_offset [] 0 \<lparr> r_X = 256, r_Y = 128, r_LOD = 1 \<rparr>
              = Inr (t, tc') \<and>
            t_X t = 256 \<and> t_Y t = 128 \<and> t_Width t = 44 \<and> t_Height t = 72 \<and>
            m_width (tileMessage real_lib t) = 44 \<and> m_height (tileMessage real_lib t) = 72 \<and>
            cache_ok real_lib tc')"
proof -
  let ?r = "\<lparr> r_X = 256, r_Y = 128, r_LOD = 1 \<rparr>"
  have a: "0 \<le> r_X ?r" "r_X ?r < p_Width example_params" "0 \<le> r_Y ?r"
    "r_Y ?r < p_Height example_params"
    "in_int64 (p_Width example_params)" "in_int64 (p_Height example_params)"
    by (simp_all add: example_params_def in_int64_def)
  have w: "min TileSize (p_Width example_params - r_X ?r) = 44"
    "min TileSize (p_Height example_params - r_Y ?r) = 72"
    by (simp_all add: TileSize_def example_params_def)
  from tile_extents_clipped [OF comma_free_real_lib cache_ok_empty a, of no_offset 0]
    w a comma_free_real_lib cache_ok_empty [of real_lib]
  show ?thesis by simp
qed

end
